theory Spec2Isabelle
  imports Complex_Main
begin

section \<open>Externally resolvable promises (src/persistent/controllable-promise.ts)\<close>

text \<open>
  A JavaScript promise is pending until it is settled once; a later call of its
  \<^verbatim>\<open>res\<close> or \<^verbatim>\<open>rej\<close> function is ignored. An error value is its class and its
  message; \<open>Error\<close> is the plain \<^verbatim>\<open>new Error(message)\<close>.
\<close>

datatype Error =
    Error string
  | ProcessError string
  | CLINotFoundError string
  | CLIConnectionError string
  | AbortError string

datatype 'a Promise = PromisePending | PromiseFulfilled 'a | PromiseRejected Error

datatype Status = pending | resolved | rejected

text \<open>
  \<^verbatim>\<open>controllablePromise\<close> keeps \<^verbatim>\<open>let status = 'pending'\<close> in its closure; the
  functions \<^verbatim>\<open>resolve\<close> and \<^verbatim>\<open>reject\<close> assign to that variable. The object it
  returns is built by \<^verbatim>\<open>{ promise, resolve, reject, status }\<close>: its \<^verbatim>\<open>status\<close>
  property receives the value the variable has at that moment, and a string is copied
  by value. The variable is the field \<open>status_var\<close>, the property is the field
  \<open>status\<close>; callers read the property only.
\<close>

record 'a ControllablePromise =
  promise :: "'a Promise"
  status_var :: Status
  status :: Status

definition controllablePromise :: "'a ControllablePromise" where
  "controllablePromise = \<lparr>promise = PromisePending, status_var = pending, status = pending\<rparr>"

definition settle :: "'a Promise \<Rightarrow> 'a Promise \<Rightarrow> 'a Promise" where
  "settle outcome p = (case p of PromisePending \<Rightarrow> outcome | _ \<Rightarrow> p)"

definition resolve :: "'a \<Rightarrow> 'a ControllablePromise \<Rightarrow> 'a ControllablePromise" where
  "resolve v cp = cp\<lparr>status_var := resolved, promise := settle (PromiseFulfilled v) (promise cp)\<rparr>"

definition reject :: "Error \<Rightarrow> 'a ControllablePromise \<Rightarrow> 'a ControllablePromise" where
  "reject e cp = cp\<lparr>status_var := rejected, promise := settle (PromiseRejected e) (promise cp)\<rparr>"


section \<open>The message generator (src/persistent/message-generator.ts)\<close>

text \<open>
  \<^verbatim>\<open>createMessageGenerator\<close> closes over \<^verbatim>\<open>sendMessagePromise\<close>, \<^verbatim>\<open>hooks\<close> and
  \<^verbatim>\<open>isTerminated\<close>. The variable \<^verbatim>\<open>sendMessagePromise\<close> is a reference that is
  re-assigned while the generator may still await the promise of an earlier object, so
  the objects live in a store: \<open>heap\<close> maps an address to the object, \<open>next_addr\<close> is
  the first address not yet handed out, and \<open>sendMessagePromise\<close> holds an address.

  A hook is a caller-supplied function; only whether it completes or fails is modelled
  (\<open>None\<close>: it returns, \<open>Some e\<close>: it throws or rejects with \<open>e\<close>). Hooks are assumed
  not to call back into the generator.

  The body of the async generator is cut at its suspension points:
  \<^item> \<open>NotStarted\<close>: created, \<^verbatim>\<open>next()\<close> not called yet;
  \<^item> \<open>AwaitingMessage a\<close>: at \<^verbatim>\<open>await sendMessagePromise.promise\<close>, on the promise of
    the object at address \<open>a\<close>;
  \<^item> \<open>AwaitingHook a m r\<close>: at \<^verbatim>\<open>await hooks.onNewUserMessageResolved(message)\<close>,
    having read \<open>m\<close> from address \<open>a\<close>; the call has outcome \<open>r\<close>;
  \<^item> \<open>AtYield m\<close>: at \<^verbatim>\<open>yield\<close>, handing the user message with content \<open>m\<close> to the
    consumer;
  \<^item> \<open>AwaitingOnError r\<close>: at \<^verbatim>\<open>await hooks.onError(error)\<close>, with outcome \<open>r\<close>;
  \<^item> \<open>Completed\<close>: left the loop by \<^verbatim>\<open>break\<close> or by \<^verbatim>\<open>return()\<close>;
  \<^item> \<open>Threw e\<close>: an error thrown by the \<^verbatim>\<open>onError\<close> hook left the generator.

  \<open>yielded\<close> records every user message handed to the consumer, with the address of
  the object its content was read from; \<open>console_warn\<close> records the warnings.
  One generator object is modelled (the client calls \<^verbatim>\<open>generateMessages()\<close> once).
\<close>

datatype gen_pc =
    NotStarted
  | AwaitingMessage nat
  | AwaitingHook nat string "Error option"
  | AtYield string
  | AwaitingOnError "Error option"
  | Completed
  | Threw Error

record MessageGenerator =
  heap :: "nat \<Rightarrow> string ControllablePromise"
  next_addr :: nat
  sendMessagePromise :: nat
  onNewUserMessageResolved :: "(string \<Rightarrow> Error option) option"
  onError :: "(Error \<Rightarrow> Error option) option"
  isTerminated :: bool
  console_warn :: "string list"
  gen :: gen_pc
  yielded :: "(nat \<times> string) list"

text \<open>The statement \<^verbatim>\<open>sendMessagePromise = controllablePromise<string>()\<close>.\<close>

definition new_sendMessagePromise :: "MessageGenerator \<Rightarrow> MessageGenerator" where
  "new_sendMessagePromise mg =
     mg\<lparr>heap := (heap mg)(next_addr mg := controllablePromise),
        sendMessagePromise := next_addr mg,
        next_addr := Suc (next_addr mg)\<rparr>"

definition createMessageGenerator :: MessageGenerator where
  "createMessageGenerator =
     new_sendMessagePromise
       \<lparr>heap = (\<lambda>_. controllablePromise), next_addr = 0, sendMessagePromise = 0,
        onNewUserMessageResolved = None, onError = None, isTerminated = False,
        console_warn = [], gen = NotStarted, yielded = []\<rparr>"

definition on_current ::
  "(string ControllablePromise \<Rightarrow> string ControllablePromise) \<Rightarrow> MessageGenerator \<Rightarrow> MessageGenerator" where
  "on_current f mg =
     mg\<lparr>heap := (heap mg)(sendMessagePromise mg := f (heap mg (sendMessagePromise mg)))\<rparr>"

definition setNextMessage :: "string \<Rightarrow> MessageGenerator \<Rightarrow> MessageGenerator" where
  "setNextMessage message mg =
     (if isTerminated mg then
        mg\<lparr>console_warn := console_warn mg @ [''[MessageGenerator] Cannot set message: generator is terminated'']\<rparr>
      else
        on_current (resolve message)
          (if status (heap mg (sendMessagePromise mg)) \<noteq> pending then
             new_sendMessagePromise
               (mg\<lparr>console_warn := console_warn mg @ [''[MessageGenerator] Previous message not consumed yet'']\<rparr>)
           else mg))"

definition setHooks ::
  "(string \<Rightarrow> Error option) option \<Rightarrow> (Error \<Rightarrow> Error option) option \<Rightarrow> MessageGenerator \<Rightarrow> MessageGenerator" where
  "setHooks h1 h2 mg =
     mg\<lparr>onNewUserMessageResolved := (case h1 of None \<Rightarrow> onNewUserMessageResolved mg | Some h \<Rightarrow> Some h),
        onError := (case h2 of None \<Rightarrow> onError mg | Some h \<Rightarrow> Some h)\<rparr>"

definition terminate_generator :: "MessageGenerator \<Rightarrow> MessageGenerator" where
  "terminate_generator mg =
     (let mg' = mg\<lparr>isTerminated := True\<rparr> in
      if status (heap mg' (sendMessagePromise mg')) = pending
      then on_current (reject (Error ''Generator terminated'')) mg'
      else mg')"

text \<open>
  The generator body. \<open>yield_message\<close> is the part from "Prepare for next message" to the
  \<^verbatim>\<open>yield\<close>; \<open>catch_tail\<close> is the end of the \<^verbatim>\<open>catch\<close> block, after the \<^verbatim>\<open>onError\<close>
  hook; \<open>catch_error\<close> enters the \<^verbatim>\<open>catch\<close> block.
\<close>

definition yield_message :: "nat \<Rightarrow> string \<Rightarrow> MessageGenerator \<Rightarrow> MessageGenerator" where
  "yield_message a message mg =
     (new_sendMessagePromise mg)\<lparr>gen := AtYield message, yielded := yielded mg @ [(a, message)]\<rparr>"

definition catch_tail :: "MessageGenerator \<Rightarrow> MessageGenerator" where
  "catch_tail mg =
     (if isTerminated mg then mg\<lparr>gen := Completed\<rparr>
      else (new_sendMessagePromise mg)\<lparr>gen := AwaitingMessage (next_addr mg)\<rparr>)"

definition catch_error :: "Error \<Rightarrow> MessageGenerator \<Rightarrow> MessageGenerator" where
  "catch_error e mg =
     (case onError mg of
        None \<Rightarrow> catch_tail mg
      | Some h \<Rightarrow> mg\<lparr>gen := AwaitingOnError (h e)\<rparr>)"

text \<open>The consumer calls \<^verbatim>\<open>next()\<close>: the body runs to its next suspension point.\<close>

definition gen_next :: "MessageGenerator \<Rightarrow> MessageGenerator" where
  "gen_next mg =
     (case gen mg of
        NotStarted \<Rightarrow> (new_sendMessagePromise mg)\<lparr>gen := AwaitingMessage (next_addr mg)\<rparr>
      | AtYield _ \<Rightarrow> mg\<lparr>gen := AwaitingMessage (sendMessagePromise mg)\<rparr>
      | _ \<Rightarrow> mg)"

text \<open>The awaited promise has settled and the body continues to its next suspension point.\<close>

definition gen_resume :: "MessageGenerator \<Rightarrow> MessageGenerator" where
  "gen_resume mg =
     (case gen mg of
        AwaitingMessage a \<Rightarrow>
          (case promise (heap mg a) of
             PromisePending \<Rightarrow> mg
           | PromiseFulfilled message \<Rightarrow>
               if isTerminated mg then mg\<lparr>gen := Completed\<rparr>
               else (case onNewUserMessageResolved mg of
                       None \<Rightarrow> yield_message a message mg
                     | Some h \<Rightarrow> mg\<lparr>gen := AwaitingHook a message (h message)\<rparr>)
           | PromiseRejected e \<Rightarrow> catch_error e mg)
      | AwaitingHook a message r \<Rightarrow>
          (case r of None \<Rightarrow> yield_message a message mg | Some e \<Rightarrow> catch_error e mg)
      | AwaitingOnError r \<Rightarrow>
          (case r of None \<Rightarrow> catch_tail mg | Some e \<Rightarrow> mg\<lparr>gen := Threw e\<rparr>)
      | _ \<Rightarrow> mg)"

text \<open>The consumer leaves its \<^verbatim>\<open>for await\<close> loop, which calls \<^verbatim>\<open>return()\<close>.\<close>

definition gen_return :: "MessageGenerator \<Rightarrow> MessageGenerator" where
  "gen_return mg =
     (case gen mg of
        NotStarted \<Rightarrow> mg\<lparr>gen := Completed\<rparr>
      | AtYield _ \<Rightarrow> mg\<lparr>gen := Completed\<rparr>
      | _ \<Rightarrow> mg)"

text \<open>
  What can happen to a message generator, one event-loop turn at a time, and a run from
  the freshly created generator.
\<close>

datatype feeder_action =
    SetNextMessage string
  | SetHooks "(string \<Rightarrow> Error option) option" "(Error \<Rightarrow> Error option) option"
  | TerminateGenerator
  | Next
  | Resume
  | Return

fun feeder_step :: "feeder_action \<Rightarrow> MessageGenerator \<Rightarrow> MessageGenerator" where
  "feeder_step (SetNextMessage m) mg = setNextMessage m mg"
| "feeder_step (SetHooks h1 h2) mg = setHooks h1 h2 mg"
| "feeder_step TerminateGenerator mg = terminate_generator mg"
| "feeder_step Next mg = gen_next mg"
| "feeder_step Resume mg = gen_resume mg"
| "feeder_step Return mg = gen_return mg"

definition run_feeder :: "feeder_action list \<Rightarrow> MessageGenerator" where
  "run_feeder acts = fold feeder_step acts createMessageGenerator"


section \<open>The persistent transport (src/persistent/persistent-cli-transport.ts)\<close>

datatype ProcessState =
    not_started
  | initializing
  | ready
  | processing
  | paused
  | terminating
  | terminated
  | error

text \<open>
  A value as \<^verbatim>\<open>JSON.parse\<close> returns it. Of a number only whether it is zero is used.
  \<^verbatim>\<open>JSON.parse\<close> itself is a parameter \<open>parse\<close> of the reader: \<open>None\<close> where it
  throws.
\<close>

datatype json =
    JNull
  | JBool bool
  | JNum rat
  | JStr string
  | JArr "json list"
  | JObj "(string \<times> json) list"

text \<open>
  Reading a property: \<open>None\<close> is \<^verbatim>\<open>undefined\<close>. On \<^verbatim>\<open>null\<close> the read throws a
  TypeError, which the callers below handle before they use \<open>property\<close>; the properties
  read here (\<^verbatim>\<open>type\<close>, \<^verbatim>\<open>subtype\<close>, \<^verbatim>\<open>session_id\<close>) are undefined on booleans,
  numbers, strings and arrays.
\<close>

definition property :: "string \<Rightarrow> json \<Rightarrow> json option" where
  "property k v = (case v of JObj kvs \<Rightarrow> map_of kvs k | _ \<Rightarrow> None)"

fun truthy :: "json option \<Rightarrow> bool" where
  "truthy None = False"
| "truthy (Some JNull) = False"
| "truthy (Some (JBool b)) = b"
| "truthy (Some (JNum n)) = (n \<noteq> 0)"
| "truthy (Some (JStr s)) = (s \<noteq> [])"
| "truthy (Some (JArr _)) = True"
| "truthy (Some (JObj _)) = True"

text \<open>\<^verbatim>\<open>String.prototype.trim\<close> on ASCII text: white space and line terminators go.\<close>

definition is_space :: "char \<Rightarrow> bool" where
  "is_space c = (c \<in> set [CHR 0x09, CHR 0x0A, CHR 0x0B, CHR 0x0C, CHR 0x0D, CHR 0x20])"

definition trim :: "string \<Rightarrow> string" where
  "trim s = rev (dropWhile is_space (rev (dropWhile is_space s)))"

datatype PersistentTransportEvent =
    StateChange ProcessState
  | Message json
  | ErrorEvent Error
  | SessionInitialized json

text \<open>
  What the transport does to the outside, in the order it does it: an event handed to
  the subscribers, a chunk written to the input stream of the subprocess, the end of that
  stream, a kill signal, a call of \<^verbatim>\<open>next()\<close> or \<^verbatim>\<open>return()\<close> on the message
  generator, a warning or an error on the console. (\<^verbatim>\<open>console.log\<close> lines are left out.)
\<close>

datatype effect =
    Emit PersistentTransportEvent
  | StdinWrite string
  | StdinEnd
  | Kill
  | NextTurn
  | ReturnGenerator
  | ConsoleWarn string
  | ConsoleError Error

text \<open>
  The handle \<^verbatim>\<open>execa\<close> returns: whether a kill signal was delivered (\<^verbatim>\<open>killed\<close>),
  whether the subprocess has exited, and whether its \<^verbatim>\<open>stdin\<close> and \<^verbatim>\<open>stdout\<close> exist.
\<close>

record ChildProcess =
  killed :: bool
  exited :: bool
  has_stdin :: bool
  has_stdout :: bool

text \<open>
  A user message; its \<^verbatim>\<open>content\<close> is a string by its type, so the text written to the
  subprocess is the content itself (the \<^verbatim>\<open>JSON.stringify\<close> branch is for other values).
\<close>

record UserMessage =
  content :: string

text \<open>
  The two loops of the transport are asynchronous functions; \<open>writer\<close> and \<open>reader\<close> say
  where each is suspended. \<^verbatim>\<open>processMessageGenerator\<close> waits for the generator
  (\<open>AwaitingTurn\<close>) or polls in \<^verbatim>\<open>waitForPause\<close> (\<open>WaitingForPause\<close>);
  \<^verbatim>\<open>processOutput\<close> waits for the next line (\<open>Reading\<close>).
\<close>

datatype writer_pc = WriterNotStarted | AwaitingTurn | WaitingForPause | WriterDone | WriterFailed | WriterAborted

datatype reader_pc = ReaderNotStarted | Reading | ReaderDone | ReaderFailed | ReaderAborted

text \<open>
  \<open>signal\<close> is \<^verbatim>\<open>options.signal\<close>: \<open>None\<close> when the caller gave none, otherwise whether
  it is aborted. \<open>cleanupAbort\<close> says whether the clean-up function of the abort handler is
  set (the handler itself, \<^verbatim>\<open>SubprocessAbortHandler\<close>, is outside these sources).
  \<open>terminate_waiting\<close> counts the calls of \<^verbatim>\<open>terminate\<close> that are suspended at
  \<^verbatim>\<open>await this.process.catch(...)\<close>, waiting for the subprocess to exit.
\<close>

record PersistentCLITransport =
  process :: "ChildProcess option"
  state :: ProcessState
  sessionId :: "json option"
  signal :: "bool option"
  cleanupAbort :: bool
  writer :: writer_pc
  reader :: reader_pc
  terminate_waiting :: nat
  trace :: "effect list"

definition new_PersistentCLITransport :: "bool option \<Rightarrow> PersistentCLITransport" where
  "new_PersistentCLITransport sig =
     \<lparr>process = None, state = not_started, sessionId = None, signal = sig,
      cleanupAbort = False, writer = WriterNotStarted, reader = ReaderNotStarted,
      terminate_waiting = 0, trace = []\<rparr>"

definition isAlive :: "PersistentCLITransport \<Rightarrow> bool" where
  "isAlive t =
     (state t \<noteq> not_started \<and> state t \<noteq> terminated \<and> state t \<noteq> error
      \<and> (case process t of None \<Rightarrow> False | Some p \<Rightarrow> \<not> killed p))"

definition aborted :: "PersistentCLITransport \<Rightarrow> bool" where
  "aborted t = (signal t = Some True)"

text \<open>\<^verbatim>\<open>emit\<close> calls every subscriber and catches what a subscriber throws.\<close>

definition emit :: "PersistentTransportEvent \<Rightarrow> PersistentCLITransport \<Rightarrow> PersistentCLITransport" where
  "emit ev t = t\<lparr>trace := trace t @ [Emit ev]\<rparr>"

definition effect :: "effect \<Rightarrow> PersistentCLITransport \<Rightarrow> PersistentCLITransport" where
  "effect x t = t\<lparr>trace := trace t @ [x]\<rparr>"

definition setState :: "ProcessState \<Rightarrow> PersistentCLITransport \<Rightarrow> PersistentCLITransport" where
  "setState newState t =
     (if state t \<noteq> newState then emit (StateChange newState) (t\<lparr>state := newState\<rparr>) else t)"

text \<open>
  \<^verbatim>\<open>start\<close>. What \<^verbatim>\<open>findCLI\<close> finds (\<open>None\<close>: it throws \<^verbatim>\<open>CLINotFoundError\<close>) and
  the handle \<^verbatim>\<open>execa\<close> returns are given by the environment. After the
  \<^verbatim>\<open>await this.findCLI()\<close> the function runs to its end without a suspension:
  \<^verbatim>\<open>processMessageGenerator\<close> runs up to its first \<^verbatim>\<open>next()\<close> on the generator and
  \<^verbatim>\<open>processOutput\<close> up to its wait for the first line, then the state becomes \<open>ready\<close>.
\<close>

record Environment =
  findCLI :: "string option"
  execa :: ChildProcess

definition start_catch :: "Error \<Rightarrow> PersistentCLITransport \<Rightarrow> (Error + unit) \<times> PersistentCLITransport" where
  "start_catch e t = (Inl e, emit (ErrorEvent e) (setState error t))"

definition processMessageGenerator_begin :: "PersistentCLITransport \<Rightarrow> PersistentCLITransport" where
  "processMessageGenerator_begin t = effect NextTurn (t\<lparr>writer := AwaitingTurn\<rparr>)"

definition processOutput_begin :: "PersistentCLITransport \<Rightarrow> PersistentCLITransport" where
  "processOutput_begin t =
     (case process t of
        None \<Rightarrow> t\<lparr>reader := ReaderFailed\<rparr>
      | Some p \<Rightarrow> if has_stdout p then t\<lparr>reader := Reading\<rparr> else t\<lparr>reader := ReaderFailed\<rparr>)"

definition start :: "Environment \<Rightarrow> PersistentCLITransport \<Rightarrow> (Error + unit) \<times> PersistentCLITransport" where
  "start env t =
     (if state t \<noteq> not_started then (Inl (ProcessError ''Process already started''), t)
      else
        let t1 = setState initializing t in
        case findCLI env of
          None \<Rightarrow> start_catch (CLINotFoundError ''Claude CLI not found. Please install it first.'') t1
        | Some cliPath \<Rightarrow>
            let t2 = t1\<lparr>process := Some (execa env), cleanupAbort := (signal t1 \<noteq> None)\<rparr> in
            if has_stdin (execa env) \<and> has_stdout (execa env)
            then (Inr (), setState ready (processOutput_begin (processMessageGenerator_begin t2)))
            else start_catch (CLIConnectionError ''Failed to get process stdin/stdout'') t2)"

text \<open>
  \<^verbatim>\<open>processMessageGenerator\<close>: the loop body for one message of the generator, the
  polling function \<^verbatim>\<open>checkState\<close> of \<^verbatim>\<open>waitForPause\<close> (called once at once, then
  by a timer every 100 ms), and the \<^verbatim>\<open>catch\<close> block. When \<^verbatim>\<open>checkState\<close> resolves the
  promise, the loop goes round and asks the generator for the next message.
\<close>

definition stdin_present :: "PersistentCLITransport \<Rightarrow> bool" where
  "stdin_present t = (case process t of None \<Rightarrow> False | Some p \<Rightarrow> has_stdin p)"

definition checkState :: "PersistentCLITransport \<Rightarrow> PersistentCLITransport" where
  "checkState t =
     (if state t = paused \<or> state t = ready
      then effect NextTurn (t\<lparr>writer := AwaitingTurn\<rparr>)
      else t)"

definition processMessage :: "UserMessage \<Rightarrow> PersistentCLITransport \<Rightarrow> PersistentCLITransport" where
  "processMessage msg t =
     (if isAlive t \<and> stdin_present t then
        checkState
          ((effect (StdinWrite (content msg @ [CHR 0x0A])) (setState processing t))
             \<lparr>writer := WaitingForPause\<rparr>)
      else effect ReturnGenerator (t\<lparr>writer := WriterDone\<rparr>))"

definition processMessageGenerator_catch :: "Error \<Rightarrow> PersistentCLITransport \<Rightarrow> PersistentCLITransport" where
  "processMessageGenerator_catch e t =
     (if aborted t then t\<lparr>writer := WriterAborted\<rparr>
      else (emit (ErrorEvent e) (setState error (effect (ConsoleError e) t)))\<lparr>writer := WriterFailed\<rparr>)"

text \<open>
  \<^verbatim>\<open>processOutput\<close>: the loop body for one line, and the \<^verbatim>\<open>catch\<close> block around the
  loop. A line that \<^verbatim>\<open>JSON.parse\<close> rejects, and the value \<^verbatim>\<open>null\<close> (reading its
  \<^verbatim>\<open>type\<close> throws inside the inner \<^verbatim>\<open>try\<close>), end in the inner \<^verbatim>\<open>catch\<close>.
\<close>

definition is_init :: "json \<Rightarrow> bool" where
  "is_init parsed =
     (property ''type'' parsed = Some (JStr ''system'')
      \<and> property ''subtype'' parsed = Some (JStr ''init'')
      \<and> truthy (property ''session_id'' parsed))"

definition is_result :: "json \<Rightarrow> bool" where
  "is_result parsed = (property ''type'' parsed = Some (JStr ''result''))"

definition handle_parsed :: "json \<Rightarrow> PersistentCLITransport \<Rightarrow> PersistentCLITransport" where
  "handle_parsed parsed t =
     (let t1 = (case property ''session_id'' parsed of
                  None \<Rightarrow> t
                | Some session_id \<Rightarrow>
                    if is_init parsed
                    then emit (SessionInitialized session_id) (t\<lparr>sessionId := Some session_id\<rparr>)
                    else t);
          t2 = (if is_result parsed then setState paused t1 else t1)
      in emit (Message parsed) t2)"

definition processLine ::
  "(string \<Rightarrow> json option) \<Rightarrow> string \<Rightarrow> PersistentCLITransport \<Rightarrow> PersistentCLITransport" where
  "processLine parse line t =
     (if aborted t then t\<lparr>reader := ReaderAborted\<rparr>
      else if trim line = [] then t
      else (case parse (trim line) of
              None \<Rightarrow> effect (ConsoleWarn (trim line)) t
            | Some JNull \<Rightarrow> effect (ConsoleWarn (trim line)) t
            | Some parsed \<Rightarrow> handle_parsed parsed t))"

definition processOutput_catch :: "Error \<Rightarrow> PersistentCLITransport \<Rightarrow> PersistentCLITransport" where
  "processOutput_catch e t =
     (if aborted t then t\<lparr>reader := ReaderAborted\<rparr>
      else (emit (ErrorEvent e) (setState error (effect (ConsoleError e) t)))\<lparr>reader := ReaderFailed\<rparr>)"

text \<open>
  \<^verbatim>\<open>terminate\<close> is an asynchronous function with one suspension, at
  \<^verbatim>\<open>await this.process.catch(...)\<close>. \<open>terminate\<close> is the call up to that point (or to
  its end, when it returns at once or there is no subprocess to wait for);
  \<open>terminate_resume\<close> is the rest, run once the subprocess has exited:
  \<^verbatim>\<open>setState('terminated')\<close> and the \<^verbatim>\<open>finally\<close> block. \<^verbatim>\<open>kill()\<close> marks the handle
  as killed when the signal is delivered, that is, when the subprocess has not exited yet.
\<close>

definition end_stdin :: "PersistentCLITransport \<Rightarrow> PersistentCLITransport" where
  "end_stdin t = (if stdin_present t then effect StdinEnd t else t)"

definition kill_process :: "PersistentCLITransport \<Rightarrow> PersistentCLITransport" where
  "kill_process t =
     (case process t of
        None \<Rightarrow> t
      | Some p \<Rightarrow>
          if killed p then t
          else effect Kill (t\<lparr>process := Some (p\<lparr>killed := \<not> exited p\<rparr>)\<rparr>))"

definition terminate_finish :: "PersistentCLITransport \<Rightarrow> PersistentCLITransport" where
  "terminate_finish t = (setState terminated t)\<lparr>cleanupAbort := False, process := None\<rparr>"

definition terminate :: "PersistentCLITransport \<Rightarrow> PersistentCLITransport" where
  "terminate t =
     (if state t = terminated \<or> state t = not_started then t
      else
        let t1 = kill_process (end_stdin (setState terminating t)) in
        case process t1 of
          None \<Rightarrow> terminate_finish t1
        | Some p \<Rightarrow> t1\<lparr>terminate_waiting := Suc (terminate_waiting t1)\<rparr>)"

definition exit_seen :: "PersistentCLITransport \<Rightarrow> bool" where
  "exit_seen t = (case process t of None \<Rightarrow> True | Some p \<Rightarrow> exited p)"

definition terminate_resume :: "PersistentCLITransport \<Rightarrow> PersistentCLITransport" where
  "terminate_resume t =
     (if 0 < terminate_waiting t \<and> exit_seen t
      then (terminate_finish t)\<lparr>terminate_waiting := terminate_waiting t - 1\<rparr>
      else t)"

text \<open>
  What can happen to a transport, one event-loop turn at a time. A step of a loop that
  is not at the matching suspension point does nothing. \<open>Abort\<close> is the caller aborting
  the signal (only the flag the transport reads is modelled, not what the abort handler
  does to the subprocess), \<open>Exit\<close> the subprocess exiting by itself, \<open>Terminate\<close> a
  call of \<^verbatim>\<open>terminate\<close> and \<open>TerminateResumes\<close> such a call running on after the exit.
\<close>

datatype transport_action =
    Start Environment
  | Turn UserMessage
  | GeneratorDone
  | GeneratorThrows Error
  | Timer
  | Line string
  | EndOfOutput
  | OutputFails Error
  | Terminate
  | TerminateResumes
  | Abort
  | Exit

fun transport_step ::
  "(string \<Rightarrow> json option) \<Rightarrow> transport_action \<Rightarrow> PersistentCLITransport \<Rightarrow> PersistentCLITransport" where
  "transport_step parse (Start env) t = snd (start env t)"
| "transport_step parse (Turn msg) t = (if writer t = AwaitingTurn then processMessage msg t else t)"
| "transport_step parse GeneratorDone t = (if writer t = AwaitingTurn then t\<lparr>writer := WriterDone\<rparr> else t)"
| "transport_step parse (GeneratorThrows e) t =
     (if writer t = AwaitingTurn then processMessageGenerator_catch e t else t)"
| "transport_step parse Timer t = (if writer t = WaitingForPause then checkState t else t)"
| "transport_step parse (Line line) t = (if reader t = Reading then processLine parse line t else t)"
| "transport_step parse EndOfOutput t = (if reader t = Reading then t\<lparr>reader := ReaderDone\<rparr> else t)"
| "transport_step parse (OutputFails e) t = (if reader t = Reading then processOutput_catch e t else t)"
| "transport_step parse Terminate t = terminate t"
| "transport_step parse TerminateResumes t = terminate_resume t"
| "transport_step parse Abort t = t\<lparr>signal := map_option (\<lambda>_. True) (signal t)\<rparr>"
| "transport_step parse Exit t = t\<lparr>process := map_option (\<lambda>p. p\<lparr>exited := True\<rparr>) (process t)\<rparr>"

definition run_transport ::
  "(string \<Rightarrow> json option) \<Rightarrow> bool option \<Rightarrow> transport_action list \<Rightarrow> PersistentCLITransport" where
  "run_transport parse sig acts = fold (transport_step parse) acts (new_PersistentCLITransport sig)"


section \<open>The persistent client (src/persistent/persistent-client.ts)\<close>

record PersistentSessionState =
  snapshot_sessionId :: "json option"
  processState :: ProcessState
  snapshot_isAlive :: bool
  snapshot_messageCount :: nat

record PersistentQueryResult =
  messages :: "json list"
  sessionState :: PersistentSessionState

text \<open>
  The client with the transport and the message generator it refers to (\<open>None\<close>:
  \<^verbatim>\<open>undefined\<close>). \<open>waitingForResult\<close> holds the \<^verbatim>\<open>resolve\<close> callbacks that
  \<^verbatim>\<open>waitForResult\<close> pushed, each named by a number; \<open>resolved_waiters\<close> holds the callbacks
  that have been called, that is, the \<^verbatim>\<open>query()\<close> calls whose wait is over.
  \<open>client_signal\<close> is \<^verbatim>\<open>options.signal\<close>, handed on to the transport.

  \<^verbatim>\<open>stop()\<close> sets both references to \<^verbatim>\<open>undefined\<close>, but the objects live on: the
  loops of the transport keep running, on the same generator, and the client's handler
  stays subscribed. \<open>released_transport\<close> and \<open>released_generator\<close> hold the objects the
  client no longer refers to. \<open>stop_waiting\<close> counts the calls of \<^verbatim>\<open>stop\<close> that are
  suspended at \<^verbatim>\<open>await this.transport.terminate()\<close>. (A transport released by an earlier
  \<^verbatim>\<open>stop()\<close> is not followed any further once \<^verbatim>\<open>start()\<close> has made a new one.)
\<close>

record PersistentClient =
  client_signal :: "bool option"
  transport :: "PersistentCLITransport option"
  messageGenerator :: "MessageGenerator option"
  messageCount :: nat
  pendingMessages :: "json list"
  waitingForResult :: "nat list"
  resolved_waiters :: "nat list"
  released_transport :: "PersistentCLITransport option"
  released_generator :: "MessageGenerator option"
  stop_waiting :: nat

definition new_PersistentClient :: "bool option \<Rightarrow> PersistentClient" where
  "new_PersistentClient sig =
     \<lparr>client_signal = sig, transport = None, messageGenerator = None, messageCount = 0,
      pendingMessages = [], waitingForResult = [], resolved_waiters = [],
      released_transport = None, released_generator = None, stop_waiting = 0\<rparr>"

definition client_isAlive :: "PersistentClient \<Rightarrow> bool" where
  "client_isAlive c = (case transport c of None \<Rightarrow> False | Some t \<Rightarrow> isAlive t)"

definition getState :: "PersistentClient \<Rightarrow> PersistentSessionState" where
  "getState c =
     \<lparr>snapshot_sessionId = (case transport c of None \<Rightarrow> None | Some t \<Rightarrow> sessionId t),
      processState = (case transport c of None \<Rightarrow> not_started | Some t \<Rightarrow> state t),
      snapshot_isAlive = client_isAlive c,
      snapshot_messageCount = messageCount c\<rparr>"

definition resolveWaitingForResult :: "PersistentClient \<Rightarrow> PersistentClient" where
  "resolveWaitingForResult c =
     c\<lparr>waitingForResult := [], resolved_waiters := resolved_waiters c @ waitingForResult c\<rparr>"

text \<open>
  \<^verbatim>\<open>handleMessage\<close> pushes the object \<^verbatim>\<open>{ type: cliOutput.type, ...cliOutput }\<close>: an
  object with the own enumerable properties of the value, which are the properties of a
  record, the elements of an array and the characters of a string under their indices,
  and none for a number or a boolean. A property whose value is \<^verbatim>\<open>undefined\<close> (here
  \<^verbatim>\<open>type\<close>, when the value has none) is represented by its absence, and the properties
  keep the order of the record. \<^verbatim>\<open>handleTransportEvent\<close> passes on a message that is
  truthy, resolves the waiting callbacks on a change to \<open>paused\<close>, and only prints the other
  events.
\<close>

function decimal :: "nat \<Rightarrow> string" where
  "decimal n = (if n < 10 then [char_of (48 + n)] else decimal (n div 10) @ [char_of (48 + n mod 10)])"
  by pat_completeness auto
termination
  by (relation "measure id") auto

declare decimal.simps [simp del]

definition indexed :: "json list \<Rightarrow> (string \<times> json) list" where
  "indexed xs = zip (map decimal [0..<length xs]) xs"

fun message_of :: "json \<Rightarrow> json" where
  "message_of (JObj kvs) = JObj kvs"
| "message_of (JArr xs) = JObj (indexed xs)"
| "message_of (JStr s) = JObj (indexed (map (\<lambda>c. JStr [c]) s))"
| "message_of v = JObj []"

definition handleMessage :: "json \<Rightarrow> PersistentClient \<Rightarrow> PersistentClient" where
  "handleMessage cliOutput c =
     (let c1 = c\<lparr>pendingMessages := pendingMessages c @ [message_of cliOutput]\<rparr> in
      if is_result cliOutput then resolveWaitingForResult c1 else c1)"

fun handleTransportEvent :: "PersistentTransportEvent \<Rightarrow> PersistentClient \<Rightarrow> PersistentClient" where
  "handleTransportEvent (Message m) c = (if truthy (Some m) then handleMessage m c else c)"
| "handleTransportEvent (StateChange s) c = (if s = paused then resolveWaitingForResult c else c)"
| "handleTransportEvent (ErrorEvent e) c = c"
| "handleTransportEvent (SessionInitialized sid) c = c"

text \<open>
  The client subscribes its handler before it starts the transport and never
  unsubscribes, and the transport calls \<^verbatim>\<open>next()\<close> and \<^verbatim>\<open>return()\<close> on the
  generator the client gave it. \<open>the_transport\<close> and \<open>the_generator\<close> are the two objects,
  whether the client still refers to them or not. The handler touches the client's own
  fields only, so a step of the transport is run first and its new effects are then
  passed on in their order: the events to the handler (\<open>events\<close>), the calls to the
  generator (\<open>generator_call\<close>).
\<close>

definition the_transport :: "PersistentClient \<Rightarrow> PersistentCLITransport option" where
  "the_transport c = (case transport c of None \<Rightarrow> released_transport c | Some t \<Rightarrow> Some t)"

definition the_generator :: "PersistentClient \<Rightarrow> MessageGenerator option" where
  "the_generator c = (case messageGenerator c of None \<Rightarrow> released_generator c | Some mg \<Rightarrow> Some mg)"

definition put_transport :: "PersistentCLITransport \<Rightarrow> PersistentClient \<Rightarrow> PersistentClient" where
  "put_transport t c =
     (case transport c of
        None \<Rightarrow> c\<lparr>released_transport := Some t\<rparr>
      | Some _ \<Rightarrow> c\<lparr>transport := Some t\<rparr>)"

definition put_generator :: "MessageGenerator \<Rightarrow> PersistentClient \<Rightarrow> PersistentClient" where
  "put_generator mg c =
     (case messageGenerator c of
        None \<Rightarrow> c\<lparr>released_generator := Some mg\<rparr>
      | Some _ \<Rightarrow> c\<lparr>messageGenerator := Some mg\<rparr>)"

fun events :: "effect list \<Rightarrow> PersistentTransportEvent list" where
  "events [] = []"
| "events (Emit ev # xs) = ev # events xs"
| "events (x # xs) = events xs"

fun generator_call :: "effect \<Rightarrow> MessageGenerator \<Rightarrow> MessageGenerator" where
  "generator_call NextTurn mg = gen_next mg"
| "generator_call ReturnGenerator mg = gen_return mg"
| "generator_call x mg = mg"

definition pass_on :: "effect list \<Rightarrow> PersistentClient \<Rightarrow> PersistentClient" where
  "pass_on new c =
     fold handleTransportEvent (events new)
       (case the_generator c of
          None \<Rightarrow> c
        | Some mg \<Rightarrow> put_generator (fold generator_call new mg) c)"

definition on_transport ::
  "(string \<Rightarrow> json option) \<Rightarrow> transport_action \<Rightarrow> PersistentClient \<Rightarrow> PersistentClient" where
  "on_transport parse a c =
     (case the_transport c of
        None \<Rightarrow> c
      | Some t \<Rightarrow>
          pass_on (drop (length (trace t)) (trace (transport_step parse a t)))
            (put_transport (transport_step parse a t) c))"

text \<open>
  The generator runs on after the promise it awaits has settled. When it yields, ends or
  throws, the writer loop of the transport receives that.
\<close>

definition generator_resumes ::
  "(string \<Rightarrow> json option) \<Rightarrow> PersistentClient \<Rightarrow> PersistentClient" where
  "generator_resumes parse c =
     (case the_generator c of
        None \<Rightarrow> c
      | Some mg \<Rightarrow>
          let c' = put_generator (gen_resume mg) c in
          if gen (gen_resume mg) = gen mg then c'
          else (case gen (gen_resume mg) of
                  AtYield m \<Rightarrow> on_transport parse (Turn \<lparr>content = m\<rparr>) c'
                | Completed \<Rightarrow> on_transport parse GeneratorDone c'
                | Threw e \<Rightarrow> on_transport parse (GeneratorThrows e) c'
                | _ \<Rightarrow> c'))"

text \<open>
  \<^verbatim>\<open>query\<close>: \<open>query_submit\<close> is the part up to \<^verbatim>\<open>await this.waitForResult()\<close>, where
  the call waits on a new callback; \<open>query_return\<close> is what the call returns once its
  callback has been called. The continuation runs as a microtask, after the step of the
  reader loop that called the callback has run to its next suspension. Nothing in
  \<^verbatim>\<open>query\<close> keeps a second call from being made while a first one waits.
\<close>

definition next_waiter :: "PersistentClient \<Rightarrow> nat" where
  "next_waiter c = length (waitingForResult c) + length (resolved_waiters c)"

definition query_submit :: "string \<Rightarrow> PersistentClient \<Rightarrow> Error + PersistentClient" where
  "query_submit prompt c =
     (case (transport c, messageGenerator c) of
        (Some t, Some mg) \<Rightarrow>
          if client_isAlive c then
            Inr (c\<lparr>pendingMessages := [],
                   messageGenerator := Some (setNextMessage prompt mg),
                   messageCount := messageCount c + 1,
                   waitingForResult := waitingForResult c @ [next_waiter c]\<rparr>)
          else Inl (Error ''Process is not alive'')
      | _ \<Rightarrow> Inl (Error ''Client not started. Call start() first.''))"

definition query_return :: "PersistentClient \<Rightarrow> PersistentQueryResult" where
  "query_return c = \<lparr>messages = pendingMessages c, sessionState = getState c\<rparr>"

text \<open>
  \<^verbatim>\<open>stop\<close> is an asynchronous function with one suspension, at
  \<^verbatim>\<open>await this.transport.terminate()\<close>. \<open>stop\<close> is the call up to that point: it
  terminates the generator and drops it, and calls \<^verbatim>\<open>terminate\<close> on the transport
  (a step that reads no line, so it is run with a parser that accepts nothing);
  without a transport it runs to its end. \<open>stop_resume\<close> is the rest, run once the call of
  \<^verbatim>\<open>terminate\<close> has returned (no call of \<^verbatim>\<open>terminate\<close> is waiting on the transport):
  the transport is dropped, and the count and the buffer are reset.
\<close>

definition stop :: "PersistentClient \<Rightarrow> PersistentClient" where
  "stop c =
     (let c1 = (case messageGenerator c of
                  None \<Rightarrow> c
                | Some mg \<Rightarrow>
                    c\<lparr>released_generator := Some (terminate_generator mg), messageGenerator := None\<rparr>)
      in case transport c1 of
           None \<Rightarrow> c1\<lparr>messageCount := 0, pendingMessages := []\<rparr>
         | Some t \<Rightarrow> (on_transport (\<lambda>_. None) Terminate c1)\<lparr>stop_waiting := Suc (stop_waiting c1)\<rparr>)"

definition terminate_returned :: "PersistentClient \<Rightarrow> bool" where
  "terminate_returned c = (case the_transport c of None \<Rightarrow> True | Some t \<Rightarrow> terminate_waiting t = 0)"

definition stop_resume :: "PersistentClient \<Rightarrow> PersistentClient" where
  "stop_resume c =
     (if 0 < stop_waiting c \<and> terminate_returned c
      then c\<lparr>released_transport := the_transport c, transport := None,
             messageCount := 0, pendingMessages := [], stop_waiting := stop_waiting c - 1\<rparr>
      else c)"

text \<open>
  What happens around a started client, one event-loop turn at a time: a line, the end
  or a failure of the subprocess's output, a tick of the \<^verbatim>\<open>waitForPause\<close> timer, the
  caller aborting the signal, the subprocess exiting, hooks being set on the generator,
  the generator running on, a call of \<^verbatim>\<open>terminate\<close> running on after the exit, and the
  caller calling \<^verbatim>\<open>query\<close> (a call that throws at its checks changes nothing) or
  \<^verbatim>\<open>stop\<close>, and a call of \<^verbatim>\<open>stop\<close> running on.
\<close>

datatype client_action =
    Stdout string
  | StdoutEnds
  | StdoutFails Error
  | Tick
  | AbortSignal
  | SubprocessExits
  | Hooks "(string \<Rightarrow> Error option) option" "(Error \<Rightarrow> Error option) option"
  | GeneratorResumes
  | TerminateContinues
  | Query string
  | StopCall
  | StopContinues

fun client_step :: "(string \<Rightarrow> json option) \<Rightarrow> client_action \<Rightarrow> PersistentClient \<Rightarrow> PersistentClient" where
  "client_step parse (Stdout line) c = on_transport parse (Line line) c"
| "client_step parse StdoutEnds c = on_transport parse EndOfOutput c"
| "client_step parse (StdoutFails e) c = on_transport parse (OutputFails e) c"
| "client_step parse Tick c = on_transport parse Timer c"
| "client_step parse AbortSignal c = on_transport parse Abort c"
| "client_step parse SubprocessExits c = on_transport parse Exit c"
| "client_step parse (Hooks h1 h2) c =
     (case the_generator c of None \<Rightarrow> c | Some mg \<Rightarrow> put_generator (setHooks h1 h2 mg) c)"
| "client_step parse GeneratorResumes c = generator_resumes parse c"
| "client_step parse TerminateContinues c = on_transport parse TerminateResumes c"
| "client_step parse (Query prompt) c = (case query_submit prompt c of Inl e \<Rightarrow> c | Inr c' \<Rightarrow> c')"
| "client_step parse StopCall c = stop c"
| "client_step parse StopContinues c = stop_resume c"

text \<open>
  \<^verbatim>\<open>start\<close>. \<open>start_transport\<close> is the part up to the end of
  \<^verbatim>\<open>await this.transport.start(...)\<close> and the submission of the initial prompt.
  \<^verbatim>\<open>waitForSessionInit\<close> then polls: \<open>checkInit\<close> is its test, run once at once and
  again every 100 ms, and a timer rejects after 30 s whatever the test would find then,
  unless a poll has settled the promise before. The first argument of
  \<open>waitForSessionInit\<close> is the number of further polls that run before that timer fires
  (at most 300, fewer when timers are late); \<open>between\<close> gives what happens around the
  client after each poll that settles nothing: before the next poll, and after the last
  poll before the timer fires.
\<close>

definition start_transport ::
  "Environment \<Rightarrow> string \<Rightarrow> PersistentClient \<Rightarrow> (Error + unit) \<times> PersistentClient" where
  "start_transport env initialPrompt c =
     (if transport c \<noteq> None then (Inl (Error ''Client already started''), c)
      else
        let t0 = new_PersistentCLITransport (client_signal c);
            r = start env t0;
            c1 = pass_on (trace (snd r))
                   (c\<lparr>messageGenerator := Some createMessageGenerator, transport := Some (snd r)\<rparr>)
        in case fst r of
             Inl e \<Rightarrow> (Inl e, c1)
           | Inr _ \<Rightarrow>
               (Inr (),
                if initialPrompt \<noteq> []
                then c1\<lparr>messageGenerator := map_option (setNextMessage initialPrompt) (messageGenerator c1)\<rparr>
                else c1))"

definition checkInit :: "PersistentClient \<Rightarrow> (Error + unit) option" where
  "checkInit c =
     (case transport c of
        None \<Rightarrow> None
      | Some t \<Rightarrow>
          if truthy (sessionId t) then Some (Inr ())
          else if state t = error \<or> state t = terminated
          then Some (Inl (Error ''Process failed to initialize''))
          else None)"

definition next_acts :: "client_action list list \<Rightarrow> client_action list" where
  "next_acts between = (case between of [] \<Rightarrow> [] | acts # rest \<Rightarrow> acts)"

fun waitForSessionInit ::
  "(string \<Rightarrow> json option) \<Rightarrow> nat \<Rightarrow> client_action list list \<Rightarrow> PersistentClient
     \<Rightarrow> (Error + unit) \<times> PersistentClient" where
  "waitForSessionInit parse 0 between c =
     (case checkInit c of
        Some r \<Rightarrow> (r, c)
      | None \<Rightarrow>
          (Inl (Error ''Session initialization timeout''),
           fold (client_step parse) (next_acts between) c))"
| "waitForSessionInit parse (Suc n) between c =
     (case checkInit c of
        Some r \<Rightarrow> (r, c)
      | None \<Rightarrow> waitForSessionInit parse n (tl between) (fold (client_step parse) (next_acts between) c))"

definition client_start ::
  "(string \<Rightarrow> json option) \<Rightarrow> Environment \<Rightarrow> string \<Rightarrow> nat \<Rightarrow> client_action list list
     \<Rightarrow> PersistentClient \<Rightarrow> (Error + unit) \<times> PersistentClient" where
  "client_start parse env initialPrompt polls between c =
     (case start_transport env initialPrompt c of
        (Inl e, c1) \<Rightarrow> (Inl e, c1)
      | (Inr _, c1) \<Rightarrow> waitForSessionInit parse polls between c1)"

text \<open>
  A sample environment for concrete runs: the executable is found and the subprocess has
  its streams; \<open>sample_parse\<close> agrees with \<^verbatim>\<open>JSON.parse\<close> on the five lines it knows and
  on a line that is no JSON.
\<close>

definition sample_env :: Environment where
  "sample_env =
     \<lparr>findCLI = Some ''/usr/local/bin/claude'',
      execa = \<lparr>killed = False, exited = False, has_stdin = True, has_stdout = True\<rparr>\<rparr>"

definition sample_parse :: "string \<Rightarrow> json option" where
  \<open>sample_parse s =
     (if s = ''{"type":"system","subtype":"init","session_id":"S1"}''
      then Some (JObj [(''type'', JStr ''system''), (''subtype'', JStr ''init''), (''session_id'', JStr ''S1'')])
      else if s = ''{"type":"assistant"}'' then Some (JObj [(''type'', JStr ''assistant'')])
      else if s = ''{"type":"result"}'' then Some (JObj [(''type'', JStr ''result'')])
      else if s = ''{"type":"error","error":{"message":"boom"}}''
      then Some (JObj [(''type'', JStr ''error''), (''error'', JObj [(''message'', JStr ''boom'')])])
      else if s = ''null'' then Some JNull
      else None)\<close>


section \<open>Observations and invariants of the client\<close>

text \<open>
  \<open>forwarded\<close>: the records among some effects that the transport emitted as message
  events and that the client's handler passes on (those that are truthy), as the handler
  stores them.
  \<open>triggers\<close>: the effects hold an event on which the handler calls the waiting callbacks
  (a change to \<open>paused\<close>, or a result record).
\<close>

fun forwarded :: "effect list \<Rightarrow> json list" where
  "forwarded [] = []"
| "forwarded (Emit (Message m) # xs) =
     (if truthy (Some m) then message_of m # forwarded xs else forwarded xs)"
| "forwarded (x # xs) = forwarded xs"

definition triggers :: "effect list \<Rightarrow> bool" where
  "triggers new =
     (Emit (StateChange paused) \<in> set new
      \<or> (\<exists>m. Emit (Message m) \<in> set new \<and> truthy (Some m) \<and> is_result m))"

text \<open>
  \<open>step_ok c c'\<close> relates a client to a later one: the transport's trace has grown by some
  effects, the buffer has grown by the records forwarded among them, callbacks that were
  called stay called, and if a callback was newly called then a result record is among
  the records forwarded.
\<close>

definition step_ok :: "PersistentClient \<Rightarrow> PersistentClient \<Rightarrow> bool" where
  "step_ok c c' =
     (\<exists>t t' new. transport c = Some t
        \<and> transport c' = Some t'
        \<and> trace t' = trace t @ new
        \<and> pendingMessages c' = pendingMessages c @ forwarded new
        \<and> set (resolved_waiters c) \<subseteq> set (resolved_waiters c')
        \<and> (set (resolved_waiters c') \<subseteq> set (resolved_waiters c)
            \<or> (\<exists>m. m \<in> set (forwarded new) \<and> is_result m)))"

text \<open>
  \<open>is_call\<close> holds of the steps in which the caller's code runs inside \<^verbatim>\<open>query\<close> or
  \<^verbatim>\<open>stop\<close>.
\<close>

fun is_call :: "client_action \<Rightarrow> bool" where
  "is_call (Query prompt) = True"
| "is_call StopCall = True"
| "is_call StopContinues = True"
| "is_call a = False"

text \<open>
  For the wait in \<^verbatim>\<open>start\<close>: \<open>no_init\<close> holds of what can happen around the client
  without an init record arriving, without a failure and without a call by the caller,
  and \<open>quiet\<close> of a client whose
  transport has no session id, is not aborted and is \<open>ready\<close>, \<open>paused\<close> or \<open>processing\<close>,
  and whose generator has no \<^verbatim>\<open>onError\<close> hook.
\<close>

fun no_init :: "(string \<Rightarrow> json option) \<Rightarrow> client_action \<Rightarrow> bool" where
  "no_init parse (Stdout line) = (case parse (trim line) of None \<Rightarrow> True | Some v \<Rightarrow> \<not> is_init v)"
| "no_init parse StdoutEnds = True"
| "no_init parse Tick = True"
| "no_init parse SubprocessExits = True"
| "no_init parse GeneratorResumes = True"
| "no_init parse a = False"

definition quiet :: "PersistentClient \<Rightarrow> bool" where
  "quiet c =
     (case (transport c, messageGenerator c) of
        (Some t, Some mg) \<Rightarrow>
          sessionId t = None \<and> \<not> aborted t
          \<and> (state t = ready \<or> state t = paused \<or> state t = processing)
          \<and> onError mg = None \<and> (\<forall>r. gen mg \<noteq> AwaitingOnError r) \<and> (\<forall>e. gen mg \<noteq> Threw e)
      | _ \<Rightarrow> False)"

text \<open>
  Concrete states of a sample session, each reached from the one before (shown below):
  the client after \<^verbatim>\<open>start()\<close> with the init record read, after \<^verbatim>\<open>query("ping")\<close> was
  submitted, and the transport after the writer loop has written the prompt.
\<close>

definition sample_ready :: PersistentCLITransport where
  "sample_ready =
       \<lparr>process = Some \<lparr>killed = False, exited = False, has_stdin = True, has_stdout = True\<rparr>,
        state = ready, sessionId = Some (JStr ''S1''), signal = None, cleanupAbort = False,
        writer = AwaitingTurn, reader = Reading, terminate_waiting = 0,
        trace = [Emit (StateChange initializing), NextTurn, Emit (StateChange ready),
                 Emit (SessionInitialized (JStr ''S1'')),
                 Emit (Message (JObj [(''type'', JStr ''system''), (''subtype'', JStr ''init''), (''session_id'', JStr ''S1'')]))]\<rparr>"

definition sample_started :: PersistentClient where
  "sample_started =
    \<lparr>client_signal = None,
     transport = Some sample_ready,
     messageGenerator = Some (gen_next createMessageGenerator),
     messageCount = 0,
     pendingMessages = [JObj [(''type'', JStr ''system''), (''subtype'', JStr ''init''), (''session_id'', JStr ''S1'')]],
     waitingForResult = [], resolved_waiters = [],
      released_transport = None, released_generator = None, stop_waiting = 0\<rparr>"

definition sample_querying :: PersistentClient where
  "sample_querying =
     sample_started
       \<lparr>pendingMessages := [],
        messageGenerator := Some (setNextMessage ''ping'' (gen_next createMessageGenerator)),
        messageCount := 1,
        waitingForResult := [0]\<rparr>"

definition sample_processing :: PersistentCLITransport where
  "sample_processing =
       \<lparr>process = Some \<lparr>killed = False, exited = False, has_stdin = True, has_stdout = True\<rparr>,
        state = processing, sessionId = Some (JStr ''S1''), signal = None, cleanupAbort = False,
        writer = WaitingForPause, reader = Reading, terminate_waiting = 0,
        trace = [Emit (StateChange initializing), NextTurn, Emit (StateChange ready),
                 Emit (SessionInitialized (JStr ''S1'')),
                 Emit (Message (JObj [(''type'', JStr ''system''), (''subtype'', JStr ''init''), (''session_id'', JStr ''S1'')])),
                 Emit (StateChange processing), StdinWrite (''ping'' @ [CHR 0x0A])]\<rparr>"


section \<open>Invariants of the message generator\<close>

text \<open>
  \<open>status_inv\<close>: the \<open>status\<close> property of every object in the store is \<open>pending\<close>.
  \<open>reading_from\<close> is the address the generator reads its next message from, and
  \<open>slot_inv\<close> says that every address a message has been yielded from lies below it.
\<close>

definition status_inv :: "MessageGenerator \<Rightarrow> bool" where
  "status_inv mg = (\<forall>a. status (heap mg a) = pending)"

definition reading_from :: "MessageGenerator \<Rightarrow> nat" where
  "reading_from mg =
     (case gen mg of
        AwaitingMessage a \<Rightarrow> a
      | AwaitingHook a _ _ \<Rightarrow> a
      | _ \<Rightarrow> sendMessagePromise mg)"

definition slot_inv :: "MessageGenerator \<Rightarrow> bool" where
  "slot_inv mg =
     (sendMessagePromise mg < next_addr mg
      \<and> reading_from mg \<le> sendMessagePromise mg
      \<and> distinct (map fst (yielded mg))
      \<and> (\<forall>b \<in> fst ` set (yielded mg). b < reading_from mg))"


section \<open>An invariant of the transport\<close>



section \<open>Properties of the promise and of the message generator\<close>

lemma status_resolve [simp]: "status (resolve v cp) = status cp"
  by (simp add: resolve_def)

lemma status_reject [simp]: "status (reject e cp) = status cp"
  by (simp add: reject_def)

text \<open>
  Claim C4, evaluated on the code: the \<open>status\<close> property of a fresh object is
  \<open>pending\<close>, and it is still \<open>pending\<close> after \<open>resolve\<close> and after \<open>reject\<close>, although
  the promise itself has been fulfilled or rejected. The claim expects \<open>resolved\<close> and
  \<open>rejected\<close>.
\<close>

theorem controllablePromise_status_stays_pending:
  "status (controllablePromise :: 'a ControllablePromise) = pending
   \<and> status (resolve v (controllablePromise :: 'a ControllablePromise)) = pending
   \<and> promise (resolve v (controllablePromise :: 'a ControllablePromise)) = PromiseFulfilled v
   \<and> status (reject e (controllablePromise :: 'a ControllablePromise)) = pending
   \<and> promise (reject e (controllablePromise :: 'a ControllablePromise)) = PromiseRejected e"
  by (simp add: controllablePromise_def resolve_def reject_def settle_def)

lemmas feeder_defs =
  setNextMessage_def setHooks_def terminate_generator_def gen_next_def gen_resume_def
  gen_return_def yield_message_def catch_tail_def catch_error_def on_current_def
  new_sendMessagePromise_def

lemmas feeder_eval =
  run_feeder_def createMessageGenerator_def feeder_defs controllablePromise_def
  resolve_def reject_def settle_def

lemma run_feeder_snoc: "run_feeder (acts @ [x]) = feeder_step x (run_feeder acts)"
  by (simp add: run_feeder_def)

lemma status_inv_step: "status_inv mg \<Longrightarrow> status_inv (feeder_step x mg)"
  by (cases x)
     (auto simp: status_inv_def feeder_defs controllablePromise_def Let_def
           split: gen_pc.splits Promise.splits option.splits)

lemma status_inv_run: "status_inv (run_feeder acts)"
proof (induction acts rule: rev_induct)
  case Nil
  show ?case
    by (simp add: run_feeder_def createMessageGenerator_def new_sendMessagePromise_def
        status_inv_def controllablePromise_def)
next
  case (snoc x xs)
  then show ?case by (simp add: run_feeder_snoc status_inv_step)
qed

text \<open>
  In every state the generator can reach, \<open>setNextMessage\<close> keeps the object
  \<open>sendMessagePromise\<close> refers to and creates none: its test
  \<^verbatim>\<open>sendMessagePromise.status !== 'pending'\<close> never succeeds.
\<close>

lemma setNextMessage_keeps_slot:
  "sendMessagePromise (setNextMessage m (run_feeder acts)) = sendMessagePromise (run_feeder acts)
   \<and> next_addr (setNextMessage m (run_feeder acts)) = next_addr (run_feeder acts)"
  using status_inv_run [of acts]
  by (simp add: status_inv_def setNextMessage_def on_current_def)

text \<open>
  Claim C5, evaluated on the code. The generator is waiting (\<open>Next\<close>), a first message
  \<open>a\<close> is submitted and a second message \<open>b\<close> is submitted before the generator has
  taken the first. At the second call the current object holds a fulfilled promise, but
  its \<open>status\<close> property still reads \<open>pending\<close>; so no replacement object is created and no
  warning is printed, \<open>resolve\<close> is called on the same object and is ignored by its settled
  promise. The generator yields \<open>a\<close>; the object it waits on next is pending: \<open>b\<close> is lost.
  The claim has a fresh object created and resolved with \<open>b\<close>.
\<close>

theorem second_setNextMessage_is_dropped:
  "status (heap (run_feeder [Next, SetNextMessage ''a'']) (sendMessagePromise (run_feeder [Next, SetNextMessage ''a'']))) = pending
   \<and> promise (heap (run_feeder [Next, SetNextMessage ''a'']) (sendMessagePromise (run_feeder [Next, SetNextMessage ''a'']))) = PromiseFulfilled ''a''
   \<and> sendMessagePromise (run_feeder [Next, SetNextMessage ''a'', SetNextMessage ''b'']) = sendMessagePromise (run_feeder [Next, SetNextMessage ''a''])
   \<and> next_addr (run_feeder [Next, SetNextMessage ''a'', SetNextMessage ''b'']) = next_addr (run_feeder [Next, SetNextMessage ''a''])
   \<and> console_warn (run_feeder [Next, SetNextMessage ''a'', SetNextMessage ''b'']) = []
   \<and> yielded (run_feeder [Next, SetNextMessage ''a'', SetNextMessage ''b'', Resume]) = [(1, ''a'')]
   \<and> gen (run_feeder [Next, SetNextMessage ''a'', SetNextMessage ''b'', Resume, Next, Resume]) = AwaitingMessage 2
   \<and> promise (heap (run_feeder [Next, SetNextMessage ''a'', SetNextMessage ''b'', Resume, Next, Resume]) 2) = PromisePending"
  by (simp add: feeder_eval)

lemma slot_inv_step: "slot_inv mg \<Longrightarrow> slot_inv (feeder_step x mg)"
  by (cases x)
     (auto simp: slot_inv_def reading_from_def feeder_defs Let_def
           split: gen_pc.splits Promise.splits option.splits if_splits)

lemma slot_inv_run: "slot_inv (run_feeder acts)"
proof (induction acts rule: rev_induct)
  case Nil
  show ?case
    by (simp add: run_feeder_def createMessageGenerator_def new_sendMessagePromise_def
        slot_inv_def reading_from_def)
next
  case (snoc x xs)
  then show ?case by (simp add: run_feeder_snoc slot_inv_step)
qed

lemma resume_yield:
  assumes "yielded (gen_resume mg) \<noteq> yielded mg"
  shows "\<exists>m. yielded (gen_resume mg) = yielded mg @ [(reading_from mg, m)]
           \<and> gen (gen_resume mg) = AtYield m
           \<and> sendMessagePromise (gen_resume mg) = next_addr mg
           \<and> heap (gen_resume mg) (next_addr mg) = controllablePromise"
  using assms
  by (auto simp: reading_from_def feeder_defs split: gen_pc.splits Promise.splits option.splits if_splits)

text \<open>
  Claim C6, as the code has it. In every state the generator can reach from
  \<open>createMessageGenerator\<close>, by any sequence of submissions, hook changes, termination
  and steps of the generator: no address occurs twice among the messages yielded so far;
  the object the generator is waiting on has not yielded a message before; and whenever a
  step of the generator yields a message, the message was read from an object that had
  not yielded before, and at that \<^verbatim>\<open>yield\<close> \<open>sendMessagePromise\<close> already refers to a new
  object (an address not handed out before the step, so different from the one read)
  whose promise and status are pending.
\<close>

theorem generator_reads_each_slot_once:
  "distinct (map fst (yielded (run_feeder acts)))
   \<and> (\<forall>a. gen (run_feeder acts) = AwaitingMessage a \<longrightarrow> a \<notin> fst ` set (yielded (run_feeder acts)))
   \<and> (yielded (run_feeder (acts @ [Resume])) \<noteq> yielded (run_feeder acts) \<longrightarrow>
        (\<exists>a m. yielded (run_feeder (acts @ [Resume])) = yielded (run_feeder acts) @ [(a, m)]
           \<and> a \<notin> fst ` set (yielded (run_feeder acts))
           \<and> gen (run_feeder (acts @ [Resume])) = AtYield m
           \<and> a < next_addr (run_feeder acts)
           \<and> sendMessagePromise (run_feeder (acts @ [Resume])) = next_addr (run_feeder acts)
           \<and> heap (run_feeder (acts @ [Resume])) (sendMessagePromise (run_feeder (acts @ [Resume]))) = controllablePromise))"
proof -
  let ?mg = "run_feeder acts"
  have inv: "slot_inv ?mg" by (rule slot_inv_run)
  have d: "distinct (map fst (yielded ?mg))"
    using inv by (simp add: slot_inv_def)
  have below: "\<forall>b \<in> fst ` set (yielded ?mg). b < reading_from ?mg"
    using inv by (simp add: slot_inv_def)
  have aw: "\<forall>a. gen ?mg = AwaitingMessage a \<longrightarrow> a \<notin> fst ` set (yielded ?mg)"
    using below by (auto simp: reading_from_def)
  have fresh: "reading_from ?mg \<notin> fst ` set (yielded ?mg)"
    using below by auto
  have lt: "reading_from ?mg < next_addr ?mg"
    using inv by (simp add: slot_inv_def)
  have step: "yielded (run_feeder (acts @ [Resume])) \<noteq> yielded ?mg \<longrightarrow>
        (\<exists>a m. yielded (run_feeder (acts @ [Resume])) = yielded ?mg @ [(a, m)]
           \<and> a \<notin> fst ` set (yielded ?mg)
           \<and> gen (run_feeder (acts @ [Resume])) = AtYield m
           \<and> a < next_addr ?mg
           \<and> sendMessagePromise (run_feeder (acts @ [Resume])) = next_addr ?mg
           \<and> heap (run_feeder (acts @ [Resume])) (sendMessagePromise (run_feeder (acts @ [Resume]))) = controllablePromise)"
  proof
    assume ne: "yielded (run_feeder (acts @ [Resume])) \<noteq> yielded ?mg"
    then have "yielded (gen_resume ?mg) \<noteq> yielded ?mg"
      by (simp add: run_feeder_snoc)
    from resume_yield [OF this] obtain m where
      m: "yielded (gen_resume ?mg) = yielded ?mg @ [(reading_from ?mg, m)]"
         "gen (gen_resume ?mg) = AtYield m"
         "sendMessagePromise (gen_resume ?mg) = next_addr ?mg"
         "heap (gen_resume ?mg) (next_addr ?mg) = controllablePromise"
      by blast
    show "\<exists>a m. yielded (run_feeder (acts @ [Resume])) = yielded ?mg @ [(a, m)]
           \<and> a \<notin> fst ` set (yielded ?mg)
           \<and> gen (run_feeder (acts @ [Resume])) = AtYield m
           \<and> a < next_addr ?mg
           \<and> sendMessagePromise (run_feeder (acts @ [Resume])) = next_addr ?mg
           \<and> heap (run_feeder (acts @ [Resume])) (sendMessagePromise (run_feeder (acts @ [Resume]))) = controllablePromise"
      using m fresh lt by (intro exI [of _ "reading_from ?mg"] exI [of _ m]) (simp add: run_feeder_snoc)
  qed
  show ?thesis using d aw step by blast
qed

theorem generator_reads_each_slot_once_witness:
  "yielded (run_feeder [Next, SetNextMessage ''hi'', Resume]) = [(1, ''hi'')]
   \<and> gen (run_feeder [Next, SetNextMessage ''hi'', Resume]) = AtYield ''hi''
   \<and> sendMessagePromise (run_feeder [Next, SetNextMessage ''hi'', Resume]) = 2
   \<and> heap (run_feeder [Next, SetNextMessage ''hi'', Resume]) 2 = controllablePromise
   \<and> gen (run_feeder [Next]) = AwaitingMessage 1
   \<and> 1 \<notin> fst ` set (yielded (run_feeder [Next]))"
proof -
  note T = generator_reads_each_slot_once [of "[Next, SetNextMessage ''hi'']", unfolded append.simps]
  have y0: "yielded (run_feeder [Next, SetNextMessage ''hi'']) = []"
    by (simp add: feeder_eval)
  have y1: "yielded (run_feeder [Next, SetNextMessage ''hi'', Resume]) = [(1, ''hi'')]"
    by (simp add: feeder_eval)
  have n: "next_addr (run_feeder [Next, SetNextMessage ''hi'']) = 2"
    by (simp add: feeder_eval)
  have g: "gen (run_feeder [Next]) = AwaitingMessage 1"
    by (simp add: feeder_eval)
  have ne: "yielded (run_feeder [Next, SetNextMessage ''hi'', Resume]) \<noteq> yielded (run_feeder [Next, SetNextMessage ''hi''])"
    using y0 y1 by simp
  from T ne obtain a m where
    am: "yielded (run_feeder [Next, SetNextMessage ''hi'', Resume]) = yielded (run_feeder [Next, SetNextMessage ''hi'']) @ [(a, m)]"
        "gen (run_feeder [Next, SetNextMessage ''hi'', Resume]) = AtYield m"
        "sendMessagePromise (run_feeder [Next, SetNextMessage ''hi'', Resume]) = next_addr (run_feeder [Next, SetNextMessage ''hi''])"
        "heap (run_feeder [Next, SetNextMessage ''hi'', Resume]) (sendMessagePromise (run_feeder [Next, SetNextMessage ''hi'', Resume])) = controllablePromise"
    by blast
  from am(1) y0 y1 have "a = 1" "m = ''hi''" by simp_all
  moreover from generator_reads_each_slot_once [of "[Next]"] g
  have "1 \<notin> fst ` set (yielded (run_feeder [Next]))" by blast
  ultimately show ?thesis using am y1 n g by simp
qed


text \<open>
  Claim C6 fails where a hook \<^verbatim>\<open>onNewUserMessageResolved\<close> is set: having read the
  message, the generator suspends on the hook's result while \<open>sendMessagePromise\<close> still
  refers to the object it read from, whose promise is fulfilled; no new object exists yet.
  It is installed when the generator runs on to its \<^verbatim>\<open>yield\<close>.
\<close>

theorem hook_wait_on_consumed_slot_counterexample:
  "gen (run_feeder [SetHooks (Some (\<lambda>m. None)) None, Next, SetNextMessage ''a'', Resume])
     = AwaitingHook 1 ''a'' None
   \<and> sendMessagePromise (run_feeder [SetHooks (Some (\<lambda>m. None)) None, Next, SetNextMessage ''a'', Resume]) = 1
   \<and> promise (heap (run_feeder [SetHooks (Some (\<lambda>m. None)) None, Next, SetNextMessage ''a'', Resume]) 1)
     = PromiseFulfilled ''a''
   \<and> next_addr (run_feeder [SetHooks (Some (\<lambda>m. None)) None, Next, SetNextMessage ''a'', Resume])
     = next_addr (run_feeder [SetHooks (Some (\<lambda>m. None)) None, Next, SetNextMessage ''a''])
   \<and> yielded (run_feeder [SetHooks (Some (\<lambda>m. None)) None, Next, SetNextMessage ''a'', Resume]) = []
   \<and> gen (run_feeder [SetHooks (Some (\<lambda>m. None)) None, Next, SetNextMessage ''a'', Resume, Resume])
     = AtYield ''a''
   \<and> sendMessagePromise (run_feeder [SetHooks (Some (\<lambda>m. None)) None, Next, SetNextMessage ''a'', Resume, Resume]) = 2"
  by (simp add: feeder_eval)


section \<open>Properties of the transport\<close>

lemmas transport_defs =
  start_def start_catch_def processMessageGenerator_begin_def processOutput_begin_def
  processMessage_def checkState_def processMessageGenerator_catch_def
  processLine_def handle_parsed_def processOutput_catch_def terminate_def
  terminate_finish_def terminate_resume_def exit_seen_def
  end_stdin_def kill_process_def setState_def emit_def effect_def
  stdin_present_def isAlive_def aborted_def





lemmas transport_eval =
  run_transport_def new_PersistentCLITransport_def transport_defs sample_env_def sample_parse_def
  is_init_def is_result_def property_def trim_def is_space_def Let_def

lemma run1:
  "run_transport sample_parse None [Start sample_env] =
     \<lparr>process = Some \<lparr>killed = False, exited = False, has_stdin = True, has_stdout = True\<rparr>,
      state = ready, sessionId = None, signal = None, cleanupAbort = False,
      writer = AwaitingTurn, reader = Reading, terminate_waiting = 0,
      trace = [Emit (StateChange initializing), NextTurn, Emit (StateChange ready)]\<rparr>"
  by (simp add: transport_eval)





text \<open>
  Claim C9, as the code has it. The reader loop is waiting for a line. If the signal is
  aborted, the line is not looked at and the loop ends (with an \<^verbatim>\<open>AbortError\<close>,
  without a change of state). Otherwise, for a line that is not empty after trimming: if
  it parses to a value other than \<^verbatim>\<open>null\<close> (in particular to a record of any type), the
  step ends by emitting that value as a message event, after the session event of an init
  record and the change to \<open>paused\<close> of a result record, and the loop goes on; if it does
  not parse (or is \<^verbatim>\<open>null\<close>), the step only prints a warning: no event, the state as
  before, and the loop goes on.
\<close>

theorem reader_forwards_or_skips:
  assumes "reader t = Reading"
  shows "(aborted t \<longrightarrow> transport_step parse (Line line) t = t\<lparr>reader := ReaderAborted\<rparr>)
         \<and> (\<not> aborted t \<and> trim line \<noteq> [] \<longrightarrow>
             (\<forall>v. parse (trim line) = Some v \<and> v \<noteq> JNull \<longrightarrow>
                trace (transport_step parse (Line line) t) =
                  trace t
                  @ (case property ''session_id'' v of
                       None \<Rightarrow> []
                     | Some sid \<Rightarrow> if is_init v then [Emit (SessionInitialized sid)] else [])
                  @ (if is_result v \<and> state t \<noteq> paused then [Emit (StateChange paused)] else [])
                  @ [Emit (Message v)]
                \<and> reader (transport_step parse (Line line) t) = Reading
                \<and> state (transport_step parse (Line line) t) = (if is_result v then paused else state t))
             \<and> (parse (trim line) = None \<or> parse (trim line) = Some JNull \<longrightarrow>
                  transport_step parse (Line line) t = t\<lparr>trace := trace t @ [ConsoleWarn (trim line)]\<rparr>
                  \<and> reader (transport_step parse (Line line) t) = Reading
                  \<and> state (transport_step parse (Line line) t) = state t
                  \<and> events (trace (transport_step parse (Line line) t)) = events (trace t)))"
proof -
  have ev: "events (xs @ [ConsoleWarn w]) = events xs" for xs w
    by (induction xs rule: events.induct) simp_all
  have ok: "trace (handle_parsed v t) =
              trace t
              @ (case property ''session_id'' v of
                   None \<Rightarrow> []
                 | Some sid \<Rightarrow> if is_init v then [Emit (SessionInitialized sid)] else [])
              @ (if is_result v \<and> state t \<noteq> paused then [Emit (StateChange paused)] else [])
              @ [Emit (Message v)]
            \<and> reader (handle_parsed v t) = reader t
            \<and> state (handle_parsed v t) = (if is_result v then paused else state t)" for v
    by (simp add: handle_parsed_def setState_def emit_def Let_def split: option.splits)
  have step: "transport_step parse (Line line) t = handle_parsed v t"
    if "\<not> aborted t" "trim line \<noteq> []" "parse (trim line) = Some v" "v \<noteq> JNull" for v
    using assms that by (simp add: processLine_def split: json.splits)
  have bad: "transport_step parse (Line line) t = t\<lparr>trace := trace t @ [ConsoleWarn (trim line)]\<rparr>"
    if "\<not> aborted t" "trim line \<noteq> []" "parse (trim line) = None \<or> parse (trim line) = Some JNull"
    using assms that by (auto simp: processLine_def effect_def)
  have ab: "transport_step parse (Line line) t = t\<lparr>reader := ReaderAborted\<rparr>" if "aborted t"
    using assms that by (simp add: processLine_def)
  show ?thesis
    using ok step bad ab assms by (auto simp: ev)
qed

text \<open>
  Claim C9 fails once the signal is aborted: the line is a record the parser accepts,
  but the step emits nothing and ends the reader loop.
\<close>

theorem reader_stops_when_aborted_counterexample:
  \<open>reader (run_transport sample_parse (Some False) [Start sample_env, Abort]) = Reading
   \<and> sample_parse (trim ''{"type":"assistant"}'') = Some (JObj [(''type'', JStr ''assistant'')])
   \<and> run_transport sample_parse (Some False) [Start sample_env, Abort, Line ''{"type":"assistant"}'']
     = (run_transport sample_parse (Some False) [Start sample_env, Abort])\<lparr>reader := ReaderAborted\<rparr>
   \<and> trace (run_transport sample_parse (Some False) [Start sample_env, Abort, Line ''{"type":"assistant"}''])
     = [Emit (StateChange initializing), NextTurn, Emit (StateChange ready)]\<close>
  by (simp add: transport_eval)

lemma line_init:
  \<open>trim '' {"type":"system","subtype":"init","session_id":"S1"}  '' =
      ''{"type":"system","subtype":"init","session_id":"S1"}''\<close>
  by (simp add: trim_def is_space_def)

theorem reader_forwards_or_skips_witness:
  \<open>trace (transport_step sample_parse (Line '' {"type":"system","subtype":"init","session_id":"S1"}  '')
            (run_transport sample_parse None [Start sample_env]))
     = [Emit (StateChange initializing), NextTurn, Emit (StateChange ready),
        Emit (SessionInitialized (JStr ''S1'')),
        Emit (Message (JObj [(''type'', JStr ''system''), (''subtype'', JStr ''init''), (''session_id'', JStr ''S1'')]))]
   \<and> transport_step sample_parse (Line ''not json'') (run_transport sample_parse None [Start sample_env])
     = (run_transport sample_parse None [Start sample_env])
         \<lparr>trace := [Emit (StateChange initializing), NextTurn, Emit (StateChange ready), ConsoleWarn ''not json'']\<rparr>
   \<and> state (transport_step sample_parse (Line ''not json'') (run_transport sample_parse None [Start sample_env])) = ready
   \<and> reader (transport_step sample_parse (Line ''not json'') (run_transport sample_parse None [Start sample_env])) = Reading
   \<and> transport_step sample_parse (Line ''not json'')
        (run_transport sample_parse (Some False) [Start sample_env, Abort])
     = (run_transport sample_parse (Some False) [Start sample_env, Abort])\<lparr>reader := ReaderAborted\<rparr>\<close>
proof -
  let ?t = "run_transport sample_parse None [Start sample_env]"
  let ?u = "run_transport sample_parse (Some False) [Start sample_env, Abort]"
  have r: "reader ?t = Reading" and na: "\<not> aborted ?t"
    by (simp_all add: run1 aborted_def)
  have ru: "reader ?u = Reading" and au: "aborted ?u"
    by (simp_all add: transport_eval)
  have p1: \<open>sample_parse ''{"type":"system","subtype":"init","session_id":"S1"}'' =
      Some (JObj [(''type'', JStr ''system''), (''subtype'', JStr ''init''), (''session_id'', JStr ''S1'')])\<close>
    by (simp add: sample_parse_def)
  have t2: "trim ''not json'' = ''not json''"
    by (simp add: trim_def is_space_def)
  have p2: "sample_parse ''not json'' = None"
    by (simp add: sample_parse_def)
  have ne1: \<open>trim '' {"type":"system","subtype":"init","session_id":"S1"}  '' \<noteq> []\<close>
    by (simp add: line_init)
  have ne2: "trim ''not json'' \<noteq> []"
    by (simp add: t2)
  note A = reader_forwards_or_skips
    [OF r, where parse = sample_parse
       and line = \<open>'' {"type":"system","subtype":"init","session_id":"S1"}  ''\<close>, unfolded line_init]
  note B = reader_forwards_or_skips [OF r, where parse = sample_parse and line = "''not json''", unfolded t2]
  note C = reader_forwards_or_skips [OF ru, where parse = sample_parse and line = "''not json''"]
  from A na ne1 p1
  have \<open>trace (transport_step sample_parse (Line '' {"type":"system","subtype":"init","session_id":"S1"}  '') ?t)
     = trace ?t
       @ (case property ''session_id'' (JObj [(''type'', JStr ''system''), (''subtype'', JStr ''init''), (''session_id'', JStr ''S1'')]) of
            None \<Rightarrow> []
          | Some sid \<Rightarrow>
              if is_init (JObj [(''type'', JStr ''system''), (''subtype'', JStr ''init''), (''session_id'', JStr ''S1'')])
              then [Emit (SessionInitialized sid)] else [])
       @ (if is_result (JObj [(''type'', JStr ''system''), (''subtype'', JStr ''init''), (''session_id'', JStr ''S1'')])
             \<and> state ?t \<noteq> paused then [Emit (StateChange paused)] else [])
       @ [Emit (Message (JObj [(''type'', JStr ''system''), (''subtype'', JStr ''init''), (''session_id'', JStr ''S1'')]))]\<close>
    unfolding line_init by blast
  then have a: \<open>trace (transport_step sample_parse (Line '' {"type":"system","subtype":"init","session_id":"S1"}  '') ?t)
     = [Emit (StateChange initializing), NextTurn, Emit (StateChange ready),
        Emit (SessionInitialized (JStr ''S1'')),
        Emit (Message (JObj [(''type'', JStr ''system''), (''subtype'', JStr ''init''), (''session_id'', JStr ''S1'')]))]\<close>
    by (simp add: run1 is_init_def is_result_def property_def)
  from B na ne2 p2
  have b: "transport_step sample_parse (Line ''not json'') ?t = ?t\<lparr>trace := trace ?t @ [ConsoleWarn ''not json'']\<rparr>
      \<and> reader (transport_step sample_parse (Line ''not json'') ?t) = Reading
      \<and> state (transport_step sample_parse (Line ''not json'') ?t) = state ?t"
    by blast
  from C au
  have c: "transport_step sample_parse (Line ''not json'') ?u = ?u\<lparr>reader := ReaderAborted\<rparr>"
    by blast
  show ?thesis using a b c by (simp add: run1)
qed

lemma start1:
  "start sample_env (new_PersistentCLITransport None) =
     (Inr (), run_transport sample_parse None [Start sample_env])"
  by (simp add: run1) (simp add: transport_eval)


section \<open>Properties of the client\<close>

lemma forwarded_append: "forwarded (xs @ ys) = forwarded xs @ forwarded ys"
  by (induction xs rule: forwarded.induct) simp_all

lemma events_append: "events (xs @ ys) = events xs @ events ys"
  by (induction xs rule: events.induct) simp_all

lemma the_transport_Some [simp]: "transport c = Some t \<Longrightarrow> the_transport c = Some t"
  by (simp add: the_transport_def)

lemma put_transport_Some [simp]:
  "transport c = Some t \<Longrightarrow> put_transport t' c = c\<lparr>transport := Some t'\<rparr>"
  by (simp add: put_transport_def)

lemma the_generator_Some [simp]: "messageGenerator c = Some mg \<Longrightarrow> the_generator c = Some mg"
  by (simp add: the_generator_def)

lemma put_generator_Some [simp]:
  "messageGenerator c = Some mg \<Longrightarrow> put_generator mg' c = c\<lparr>messageGenerator := Some mg'\<rparr>"
  by (simp add: put_generator_def)

lemma put_generator_fields [simp]:
  "transport (put_generator mg c) = transport c
   \<and> released_transport (put_generator mg c) = released_transport c
   \<and> the_transport (put_generator mg c) = the_transport c
   \<and> the_generator (put_generator mg c) = Some mg
   \<and> pendingMessages (put_generator mg c) = pendingMessages c
   \<and> waitingForResult (put_generator mg c) = waitingForResult c
   \<and> resolved_waiters (put_generator mg c) = resolved_waiters c
   \<and> messageCount (put_generator mg c) = messageCount c
   \<and> stop_waiting (put_generator mg c) = stop_waiting c"
  by (simp add: put_generator_def the_transport_def the_generator_def split: option.splits)

lemma put_transport_fields [simp]:
  "messageGenerator (put_transport t c) = messageGenerator c
   \<and> released_generator (put_transport t c) = released_generator c
   \<and> the_generator (put_transport t c) = the_generator c
   \<and> the_transport (put_transport t c) = Some t
   \<and> pendingMessages (put_transport t c) = pendingMessages c
   \<and> waitingForResult (put_transport t c) = waitingForResult c
   \<and> resolved_waiters (put_transport t c) = resolved_waiters c
   \<and> messageCount (put_transport t c) = messageCount c
   \<and> stop_waiting (put_transport t c) = stop_waiting c"
  by (simp add: put_transport_def the_transport_def the_generator_def split: option.splits)

lemma handle_fields:
  "transport (handleTransportEvent ev c) = transport c
   \<and> messageGenerator (handleTransportEvent ev c) = messageGenerator c
   \<and> released_transport (handleTransportEvent ev c) = released_transport c
   \<and> released_generator (handleTransportEvent ev c) = released_generator c
   \<and> messageCount (handleTransportEvent ev c) = messageCount c
   \<and> stop_waiting (handleTransportEvent ev c) = stop_waiting c"
  by (cases ev) (simp_all add: handleMessage_def resolveWaitingForResult_def Let_def)

lemma fold_handle_fields [simp]:
  "transport (fold handleTransportEvent evs c) = transport c
   \<and> messageGenerator (fold handleTransportEvent evs c) = messageGenerator c
   \<and> released_transport (fold handleTransportEvent evs c) = released_transport c
   \<and> released_generator (fold handleTransportEvent evs c) = released_generator c
   \<and> messageCount (fold handleTransportEvent evs c) = messageCount c
   \<and> stop_waiting (fold handleTransportEvent evs c) = stop_waiting c"
proof (induction evs arbitrary: c)
  case Nil
  then show ?case by simp
next
  case (Cons ev evs)
  from Cons [of "handleTransportEvent ev c"] handle_fields [of ev c]
  show ?case by simp
qed

lemma the_fold_handle [simp]:
  "the_transport (fold handleTransportEvent evs c) = the_transport c
   \<and> the_generator (fold handleTransportEvent evs c) = the_generator c"
  by (simp add: the_transport_def the_generator_def split: option.splits)

lemma pass_on_fields [simp]:
  "transport (pass_on new c) = transport c
   \<and> released_transport (pass_on new c) = released_transport c
   \<and> the_transport (pass_on new c) = the_transport c
   \<and> messageCount (pass_on new c) = messageCount c
   \<and> stop_waiting (pass_on new c) = stop_waiting c"
  by (simp add: pass_on_def split: option.splits)

lemma handle_single:
  "pendingMessages (handleTransportEvent ev c) = pendingMessages c @ forwarded [Emit ev]
   \<and> (resolved_waiters (handleTransportEvent ev c) = resolved_waiters c
       \<or> triggers [Emit ev] \<and> resolved_waiters (handleTransportEvent ev c) = resolved_waiters c @ waitingForResult c)"
  by (cases ev) (auto simp: handleMessage_def resolveWaitingForResult_def triggers_def Let_def)

lemma triggers_Cons: "triggers (x # xs) = (triggers [x] \<or> triggers xs)"
  by (auto simp: triggers_def)

lemma fold_handle_effect:
  "pendingMessages (fold handleTransportEvent (events new) c) = pendingMessages c @ forwarded new
   \<and> (set (resolved_waiters (fold handleTransportEvent (events new) c)) \<subseteq> set (resolved_waiters c) \<or> triggers new)
   \<and> set (resolved_waiters c) \<subseteq> set (resolved_waiters (fold handleTransportEvent (events new) c))"
proof (induction new arbitrary: c)
  case Nil
  show ?case by simp
next
  case (Cons x xs)
  show ?case
  proof (cases x)
    case (Emit ev)
    have f: "forwarded (x # xs) = forwarded [Emit ev] @ forwarded xs"
      using forwarded_append [of "[x]" xs] Emit by simp
    from handle_single [of ev c] Cons [of "handleTransportEvent ev c"]
    show ?thesis
      unfolding f triggers_Cons [of x xs] using Emit by auto
  next
    case (StdinWrite w)
    with Cons [of c] show ?thesis by (simp add: triggers_def)
  next
    case StdinEnd
    with Cons [of c] show ?thesis by (simp add: triggers_def)
  next
    case Kill
    with Cons [of c] show ?thesis by (simp add: triggers_def)
  next
    case NextTurn
    with Cons [of c] show ?thesis by (simp add: triggers_def)
  next
    case ReturnGenerator
    with Cons [of c] show ?thesis by (simp add: triggers_def)
  next
    case (ConsoleWarn w)
    with Cons [of c] show ?thesis by (simp add: triggers_def)
  next
    case (ConsoleError e)
    with Cons [of c] show ?thesis by (simp add: triggers_def)
  qed
qed

lemma pass_on_effect:
  "pendingMessages (pass_on new c) = pendingMessages c @ forwarded new
   \<and> (set (resolved_waiters (pass_on new c)) \<subseteq> set (resolved_waiters c) \<or> triggers new)
   \<and> set (resolved_waiters c) \<subseteq> set (resolved_waiters (pass_on new c))"
proof (cases "the_generator c")
  case None
  with fold_handle_effect [of new c] show ?thesis by (simp add: pass_on_def)
next
  case (Some mg)
  with fold_handle_effect [of new "put_generator (fold generator_call new mg) c"]
  show ?thesis by (simp add: pass_on_def)
qed

lemmas trace_defs =
  start_def start_catch_def processMessageGenerator_begin_def processOutput_begin_def
  processMessage_def checkState_def processMessageGenerator_catch_def
  processLine_def handle_parsed_def processOutput_catch_def terminate_def
  terminate_finish_def terminate_resume_def exit_seen_def
  end_stdin_def kill_process_def setState_def emit_def effect_def

lemma result_is_record: "is_result v \<Longrightarrow> message_of v = v \<and> truthy (Some v)"
  by (cases v) (simp_all add: is_result_def property_def)

text \<open>One step of the transport appends to the trace, and a change to paused in it comes with a result message.\<close>

lemma trace_step:
  "\<exists>new. trace (transport_step parse a t) = trace t @ new
         \<and> (triggers new \<longrightarrow> (\<exists>m. m \<in> set (forwarded new) \<and> is_result m))"
proof (cases a)
  case (Line line)
  have hp: "\<exists>new. trace (handle_parsed v t) = trace t @ new
         \<and> (triggers new \<longrightarrow> (\<exists>m. m \<in> set (forwarded new) \<and> is_result m))" if "v \<noteq> JNull" for v
    using result_is_record [of v]
    by (auto simp: handle_parsed_def setState_def emit_def Let_def triggers_def forwarded_append
        split: option.splits)
  show ?thesis
    using Line hp
    by (auto simp: processLine_def effect_def triggers_def split: option.splits json.splits)
qed (auto simp: trace_defs triggers_def Let_def split: option.splits if_splits)

lemma step_ok_refl: "transport c = Some t \<Longrightarrow> pendingMessages c' = pendingMessages c \<Longrightarrow>
   resolved_waiters c' = resolved_waiters c \<Longrightarrow> transport c' = transport c \<Longrightarrow> step_ok c c'"
  unfolding step_ok_def by (intro exI [of _ t] exI [of _ "[]"]) simp

lemma on_transport_ok:
  assumes "transport c = Some t"
  shows "step_ok c (on_transport parse a c)"
proof -
  from trace_step [of parse a t] obtain new where
    new: "trace (transport_step parse a t) = trace t @ new"
         "triggers new \<longrightarrow> (\<exists>m. m \<in> set (forwarded new) \<and> is_result m)"
    by blast
  let ?c1 = "c\<lparr>transport := Some (transport_step parse a t)\<rparr>"
  have eq: "on_transport parse a c = pass_on new ?c1"
    using assms new(1) by (simp add: on_transport_def)
  from pass_on_effect [of new ?c1] new(2)
  show ?thesis
    unfolding step_ok_def eq
    using assms new(1)
    by (intro exI [of _ t] exI [of _ "transport_step parse a t"] exI [of _ new]) auto
qed

lemma client_step_ok:
  assumes "transport c = Some t" and "\<not> is_call a"
  shows "step_ok c (client_step parse a c)"
proof (cases a)
  case (Hooks h1 h2)
  then show ?thesis
    using assms(1) by (auto simp: step_ok_refl [of c t] split: option.splits)
next
  case GeneratorResumes
  show ?thesis
  proof (cases "the_generator c")
    case None
    then show ?thesis
      using GeneratorResumes assms(1) by (simp add: generator_resumes_def step_ok_refl [of c t])
  next
    case (Some mg)
    let ?c' = "put_generator (gen_resume mg) c"
    have t': "transport ?c' = Some t" using assms(1) by simp
    have same: "step_ok c ?c'" using assms(1) by (simp add: step_ok_refl [of c t])
    have via: "step_ok c (on_transport parse b ?c')" for b
      using on_transport_ok [OF t', of parse b] assms(1)
      by (simp add: step_ok_def)
    show ?thesis
      using GeneratorResumes Some same via
      by (simp add: generator_resumes_def Let_def split: gen_pc.splits)
  qed
qed (use assms(2) in \<open>simp_all add: on_transport_ok [OF assms(1)]\<close>)

lemma step_ok_trans:
  assumes "step_ok c c'" and "step_ok c' c''"
  shows "step_ok c c''"
proof -
  from assms(1) obtain t t' new where
    1: "transport c = Some t" "transport c' = Some t'"
       "trace t' = trace t @ new"
       "pendingMessages c' = pendingMessages c @ forwarded new"
       "set (resolved_waiters c) \<subseteq> set (resolved_waiters c')"
       "set (resolved_waiters c') \<subseteq> set (resolved_waiters c)
            \<or> (\<exists>m. m \<in> set (forwarded new) \<and> is_result m)"
    unfolding step_ok_def by blast
  from assms(2) 1(2) obtain t'' new' where
    2: "transport c'' = Some t''"
       "trace t'' = trace t' @ new'"
       "pendingMessages c'' = pendingMessages c' @ forwarded new'"
       "set (resolved_waiters c') \<subseteq> set (resolved_waiters c'')"
       "set (resolved_waiters c'') \<subseteq> set (resolved_waiters c')
            \<or> (\<exists>m. m \<in> set (forwarded new') \<and> is_result m)"
    unfolding step_ok_def by auto
  from 1(3) 2(2) have tr: "trace t'' = trace t @ (new @ new')"
    by simp
  from 1(4) 2(3) have pm: "pendingMessages c'' = pendingMessages c @ forwarded (new @ new')"
    by (simp add: forwarded_append)
  from 1(5) 2(4) have mono: "set (resolved_waiters c) \<subseteq> set (resolved_waiters c'')"
    by blast
  from 1(6) 2(5) have res: "set (resolved_waiters c'') \<subseteq> set (resolved_waiters c)
            \<or> (\<exists>m. m \<in> set (forwarded (new @ new')) \<and> is_result m)"
    by (auto simp: forwarded_append)
  show ?thesis
    unfolding step_ok_def
    using 1(1) 2(1) tr pm mono res by blast
qed

lemma run_ok:
  assumes "transport c = Some t" and "\<forall>a \<in> set acts. \<not> is_call a"
  shows "step_ok c (fold (client_step parse) acts c)"
  using assms(2)
proof (induction acts rule: rev_induct)
  case Nil
  show ?case using assms(1) by (simp add: step_ok_refl [of c t])
next
  case (snoc a acts)
  let ?c = "fold (client_step parse) acts c"
  from snoc have ok: "step_ok c ?c" and na: "\<not> is_call a" by simp_all
  from ok obtain t' where "transport ?c = Some t'"
    by (auto simp: step_ok_def)
  from client_step_ok [OF this na, of parse] ok
  show ?case by (auto intro: step_ok_trans)
qed

text \<open>
  Claim C10, as the code has it. A \<^verbatim>\<open>query()\<close> call that passes its checks empties the
  buffer and waits on a new callback. The buffer is one field of the client, shared by
  all calls. If, during the wait, no code of another \<^verbatim>\<open>query()\<close> or of \<^verbatim>\<open>stop()\<close> runs,
  then whatever else happens around the client: the messages the call returns are exactly
  the records forwarded since the submission, in their order, and if the call's callback
  has been called, a result-typed record is among them.
\<close>

theorem query_result_includes_result_record:
  assumes "query_submit prompt c = Inr c1"
    and "next_waiter c \<notin> set (resolved_waiters c)"
    and "\<forall>a \<in> set acts. \<not> is_call a"
  shows "pendingMessages c1 = []
     \<and> next_waiter c \<in> set (waitingForResult c1)
     \<and> (\<exists>t1 t2 new. transport c1 = Some t1
           \<and> transport (fold (client_step parse) acts c1) = Some t2
           \<and> trace t2 = trace t1 @ new
           \<and> messages (query_return (fold (client_step parse) acts c1)) = forwarded new)
     \<and> (next_waiter c \<in> set (resolved_waiters (fold (client_step parse) acts c1)) \<longrightarrow>
          (\<exists>m \<in> set (messages (query_return (fold (client_step parse) acts c1))). is_result m))"
proof -
  from assms(1) obtain t mg where
    t: "transport c = Some t" and mg: "messageGenerator c = Some mg"
    by (auto simp: query_submit_def split: option.splits if_splits)
  from assms(1) t mg have c1:
    "c1 = c\<lparr>pendingMessages := [], messageGenerator := Some (setNextMessage prompt mg),
            messageCount := messageCount c + 1,
            waitingForResult := waitingForResult c @ [next_waiter c]\<rparr>"
    by (auto simp: query_submit_def split: if_splits)
  have p: "pendingMessages c1 = []" and w: "next_waiter c \<in> set (waitingForResult c1)"
    and r: "resolved_waiters c1 = resolved_waiters c" and t1: "transport c1 = Some t"
    using c1 t by simp_all
  let ?c2 = "fold (client_step parse) acts c1"
  from run_ok [OF t1 assms(3), of parse] t1 obtain t2 new where
    ok: "transport ?c2 = Some t2" "trace t2 = trace t @ new"
        "pendingMessages ?c2 = pendingMessages c1 @ forwarded new"
        "set (resolved_waiters ?c2) \<subseteq> set (resolved_waiters c1)
            \<or> (\<exists>m. m \<in> set (forwarded new) \<and> is_result m)"
    unfolding step_ok_def by auto
  have m: "messages (query_return ?c2) = forwarded new"
    using ok(3) p by (simp add: query_return_def)
  have res: "\<exists>m \<in> set (messages (query_return ?c2)). is_result m"
    if "next_waiter c \<in> set (resolved_waiters ?c2)"
    using that ok(4) r assms(2) m by auto
  show ?thesis using p w t1 ok(1,2) m res by blast
qed

lemmas client_eval =
  on_transport_def pass_on_def generator_resumes_def handleMessage_def resolveWaitingForResult_def
  client_isAlive_def getState_def query_submit_def query_return_def next_waiter_def
  checkInit_def client_start_def the_transport_def the_generator_def put_transport_def
  put_generator_def stop_def stop_resume_def terminate_returned_def next_acts_def

lemma cstart1:
  "start_transport sample_env [] (new_PersistentClient None) =
     (Inr (),
      \<lparr>client_signal = None,
       transport = Some (run_transport sample_parse None [Start sample_env]),
       messageGenerator = Some (gen_next createMessageGenerator),
       messageCount = 0, pendingMessages = [], waitingForResult = [], resolved_waiters = [],
       released_transport = None, released_generator = None, stop_waiting = 0\<rparr>)"
  by (simp add: start_transport_def new_PersistentClient_def start1 Let_def pass_on_def
      the_generator_def put_generator_def)
     (simp add: run1)

lemma gen_ping:
  "gen (setNextMessage ''ping'' (gen_next createMessageGenerator)) = AwaitingMessage 1
   \<and> gen (gen_resume (setNextMessage ''ping'' (gen_next createMessageGenerator))) = AtYield ''ping''"
  by (simp add: feeder_eval)

lemma sample_started_eq:
  \<open>client_start sample_parse sample_env [] (Suc 0)
      [[Stdout ''{"type":"system","subtype":"init","session_id":"S1"}'']] (new_PersistentClient None) =
   (Inr (), sample_started)\<close>
  by (simp add: client_start_def cstart1 run1 checkInit_def next_acts_def)
     (simp add: client_eval transport_eval sample_started_def sample_ready_def)

lemma sample_querying_eq: "query_submit ''ping'' sample_started = Inr sample_querying"
  by (simp add: sample_started_def sample_ready_def sample_querying_def query_submit_def client_isAlive_def isAlive_def
      next_waiter_def)

lemma sample_turn:
  "generator_resumes sample_parse sample_querying =
     sample_querying
       \<lparr>transport := Some sample_processing,
        messageGenerator := Some (gen_resume (setNextMessage ''ping'' (gen_next createMessageGenerator)))\<rparr>"
  by (simp add: sample_querying_def sample_started_def sample_ready_def sample_processing_def gen_ping
      generator_resumes_def on_transport_def pass_on_def processMessage_def checkState_def
      setState_def emit_def effect_def isAlive_def stdin_present_def
      the_transport_def the_generator_def put_transport_def put_generator_def)

theorem query_result_includes_result_record_witness:
  \<open>query_submit ''ping'' sample_started = Inr sample_querying
   \<and> next_waiter sample_started = 0
   \<and> pendingMessages sample_querying = []
   \<and> resolved_waiters (fold (client_step sample_parse)
        [GeneratorResumes, Stdout ''{"type":"assistant"}'', Stdout ''{"type":"result"}''] sample_querying) = [0]
   \<and> messages (query_return (fold (client_step sample_parse)
        [GeneratorResumes, Stdout ''{"type":"assistant"}'', Stdout ''{"type":"result"}''] sample_querying))
      = [JObj [(''type'', JStr ''assistant'')], JObj [(''type'', JStr ''result'')]]
   \<and> (\<exists>m \<in> set (messages (query_return (fold (client_step sample_parse)
        [GeneratorResumes, Stdout ''{"type":"assistant"}'', Stdout ''{"type":"result"}''] sample_querying))).
          is_result m)\<close>
proof -
  have nw: "next_waiter sample_started = 0" "next_waiter sample_started \<notin> set (resolved_waiters sample_started)"
    by (simp_all add: sample_started_def sample_ready_def next_waiter_def)
  have nc: \<open>\<forall>a \<in> set [GeneratorResumes, Stdout ''{"type":"assistant"}'', Stdout ''{"type":"result"}''].
              \<not> is_call a\<close>
    by simp
  note T = query_result_includes_result_record [OF sample_querying_eq nw(2) nc, of sample_parse]
  have r: \<open>resolved_waiters (fold (client_step sample_parse)
        [GeneratorResumes, Stdout ''{"type":"assistant"}'', Stdout ''{"type":"result"}''] sample_querying) = [0]\<close>
    by (simp add: sample_turn)
       (simp add: sample_querying_def sample_started_def sample_ready_def sample_processing_def client_eval transport_eval)
  have m: \<open>messages (query_return (fold (client_step sample_parse)
        [GeneratorResumes, Stdout ''{"type":"assistant"}'', Stdout ''{"type":"result"}''] sample_querying))
      = [JObj [(''type'', JStr ''assistant'')], JObj [(''type'', JStr ''result'')]]\<close>
    by (simp add: sample_turn)
       (simp add: sample_querying_def sample_started_def sample_ready_def sample_processing_def client_eval transport_eval)
  from T r nw(1)
  have res: \<open>\<exists>m \<in> set (messages (query_return (fold (client_step sample_parse)
        [GeneratorResumes, Stdout ''{"type":"assistant"}'', Stdout ''{"type":"result"}''] sample_querying))).
          is_result m\<close>
    by simp
  from T have "pendingMessages sample_querying = []" by blast
  then show ?thesis using sample_querying_eq nw(1) r m res by simp
qed

text \<open>
  Claim C10 fails when \<^verbatim>\<open>query()\<close> is called again while a call waits: the second call
  empties the buffer the first call reads. On the sample session the first call has been
  submitted and an assistant record has arrived; a second call is submitted; the result
  record then calls both callbacks, and both calls return the result record alone. The
  assistant record, observed since the first submission, is in neither result.
\<close>

theorem second_query_empties_buffer_counterexample:
  \<open>query_submit ''ping'' sample_started = Inr sample_querying
   \<and> pendingMessages (fold (client_step sample_parse)
        [GeneratorResumes, Stdout ''{"type":"assistant"}''] sample_querying)
      = [JObj [(''type'', JStr ''assistant'')]]
   \<and> waitingForResult (fold (client_step sample_parse)
        [GeneratorResumes, Stdout ''{"type":"assistant"}'', Query ''pong''] sample_querying) = [0, 1]
   \<and> pendingMessages (fold (client_step sample_parse)
        [GeneratorResumes, Stdout ''{"type":"assistant"}'', Query ''pong''] sample_querying) = []
   \<and> resolved_waiters (fold (client_step sample_parse)
        [GeneratorResumes, Stdout ''{"type":"assistant"}'', Query ''pong'', Stdout ''{"type":"result"}'']
        sample_querying) = [0, 1]
   \<and> messages (query_return (fold (client_step sample_parse)
        [GeneratorResumes, Stdout ''{"type":"assistant"}'', Query ''pong'', Stdout ''{"type":"result"}'']
        sample_querying))
      = [JObj [(''type'', JStr ''result'')]]\<close>
  by (simp add: sample_querying_eq sample_turn)
     (simp add: sample_querying_def sample_started_def sample_ready_def sample_processing_def
        client_eval transport_eval)

text \<open>
  Claim C3, as the code has it. When the reader loop parses an error-typed record, the
  transport emits it as a message event and does nothing else (no error event, the state
  as before); the client appends it to the buffer, and the callbacks that wait for a
  result are neither called nor dropped: the call of \<^verbatim>\<open>query()\<close> stays pending.
\<close>

theorem error_record_is_only_a_message:
  assumes "transport c = Some t" and "reader t = Reading" and "\<not> aborted t"
    and "trim line \<noteq> []" and "parse (trim line) = Some v"
    and "property ''type'' v = Some (JStr ''error'')"
  shows "transport (client_step parse (Stdout line) c) = Some (t\<lparr>trace := trace t @ [Emit (Message v)]\<rparr>)
     \<and> pendingMessages (client_step parse (Stdout line) c) = pendingMessages c @ [v]
     \<and> waitingForResult (client_step parse (Stdout line) c) = waitingForResult c
     \<and> resolved_waiters (client_step parse (Stdout line) c) = resolved_waiters c"
proof -
  from assms(6) obtain kvs where v: "v = JObj kvs"
    by (cases v) (simp_all add: property_def)
  have ni: "\<not> is_init v" and nr: "\<not> is_result v"
    using assms(6) by (simp_all add: is_init_def is_result_def)
  have st: "transport_step parse (Line line) t = t\<lparr>trace := trace t @ [Emit (Message v)]\<rparr>"
    using assms(2-5) v ni nr
    by (simp add: processLine_def handle_parsed_def emit_def split: option.splits)
  show ?thesis
    using assms(1) st v nr
    by (simp add: on_transport_def pass_on_def handleMessage_def split: option.splits)
qed

theorem error_record_is_only_a_message_witness:
  \<open>transport (client_step sample_parse (Stdout ''{"type":"error","error":{"message":"boom"}}'') sample_started)
     = Some (sample_ready
         \<lparr>trace := trace sample_ready
            @ [Emit (Message (JObj [(''type'', JStr ''error''), (''error'', JObj [(''message'', JStr ''boom'')])]))]\<rparr>)
   \<and> pendingMessages (client_step sample_parse (Stdout ''{"type":"error","error":{"message":"boom"}}'') sample_started)
     = pendingMessages sample_started
        @ [JObj [(''type'', JStr ''error''), (''error'', JObj [(''message'', JStr ''boom'')])]]\<close>
proof -
  have 1: "transport sample_started = Some sample_ready" by (simp add: sample_started_def)
  have 2: "reader sample_ready = Reading" by (simp add: sample_ready_def)
  have 3: "\<not> aborted sample_ready" by (simp add: sample_ready_def aborted_def)
  have tl: \<open>trim ''{"type":"error","error":{"message":"boom"}}'' = ''{"type":"error","error":{"message":"boom"}}''\<close>
    by (simp add: trim_def is_space_def)
  have 4: \<open>trim ''{"type":"error","error":{"message":"boom"}}'' \<noteq> []\<close>
    by (simp add: tl)
  have 5: \<open>sample_parse (trim ''{"type":"error","error":{"message":"boom"}}'')
     = Some (JObj [(''type'', JStr ''error''), (''error'', JObj [(''message'', JStr ''boom'')])])\<close>
    by (simp add: tl) (simp add: sample_parse_def)
  have 6: "property ''type'' (JObj [(''type'', JStr ''error''), (''error'', JObj [(''message'', JStr ''boom'')])])
     = Some (JStr ''error'')"
    by (simp add: property_def)
  note T = error_record_is_only_a_message
    [where parse = sample_parse and c = sample_started and t = sample_ready
       and line = \<open>''{"type":"error","error":{"message":"boom"}}''\<close>
       and v = "JObj [(''type'', JStr ''error''), (''error'', JObj [(''message'', JStr ''boom'')])]"]
  from T [OF 1 2 3 4 5 6] show ?thesis by blast
qed

text \<open>
  Claim C3 fails on the sample session: after the error record the only new effect of the
  transport is the message event, the query still waits; the result record that follows
  resolves it, with the error record among its messages.
\<close>

theorem error_record_does_not_reject_counterexample:
  \<open>client_start sample_parse sample_env [] (Suc 0)
      [[Stdout ''{"type":"system","subtype":"init","session_id":"S1"}'']] (new_PersistentClient None)
     = (Inr (), sample_started)
   \<and> query_submit ''ping'' sample_started = Inr sample_querying
   \<and> transport (fold (client_step sample_parse)
        [GeneratorResumes, Stdout ''{"type":"error","error":{"message":"boom"}}''] sample_querying)
     = Some (sample_processing
         \<lparr>trace := trace sample_processing
            @ [Emit (Message (JObj [(''type'', JStr ''error''), (''error'', JObj [(''message'', JStr ''boom'')])]))]\<rparr>)
   \<and> waitingForResult (fold (client_step sample_parse)
        [GeneratorResumes, Stdout ''{"type":"error","error":{"message":"boom"}}''] sample_querying) = [0]
   \<and> resolved_waiters (fold (client_step sample_parse)
        [GeneratorResumes, Stdout ''{"type":"error","error":{"message":"boom"}}''] sample_querying) = []
   \<and> resolved_waiters (fold (client_step sample_parse)
        [GeneratorResumes, Stdout ''{"type":"error","error":{"message":"boom"}}'', Stdout ''{"type":"result"}'']
        sample_querying) = [0]
   \<and> messages (query_return (fold (client_step sample_parse)
        [GeneratorResumes, Stdout ''{"type":"error","error":{"message":"boom"}}'', Stdout ''{"type":"result"}'']
        sample_querying))
     = [JObj [(''type'', JStr ''error''), (''error'', JObj [(''message'', JStr ''boom'')])],
        JObj [(''type'', JStr ''result'')]]\<close>
  by (simp add: sample_started_eq sample_querying_eq sample_turn)
     (simp add: sample_querying_def sample_started_def sample_ready_def sample_processing_def client_eval transport_eval)

text \<open>
  Claim C1, as the code has it. Neither the exit of the subprocess nor the end of its
  output changes what the client reports (state, liveness, session, count), emits an
  event, or calls or drops a waiting callback: a pending \<^verbatim>\<open>query()\<close> stays pending and
  \<open>isAlive\<close> answers as before.
\<close>

theorem exit_is_not_detected:
  "getState (client_step parse SubprocessExits c) = getState c
   \<and> waitingForResult (client_step parse SubprocessExits c) = waitingForResult c
   \<and> resolved_waiters (client_step parse SubprocessExits c) = resolved_waiters c
   \<and> map_option trace (transport (client_step parse SubprocessExits c)) = map_option trace (transport c)
   \<and> getState (client_step parse StdoutEnds c) = getState c
   \<and> waitingForResult (client_step parse StdoutEnds c) = waitingForResult c
   \<and> resolved_waiters (client_step parse StdoutEnds c) = resolved_waiters c
   \<and> map_option trace (transport (client_step parse StdoutEnds c)) = map_option trace (transport c)"
  by (cases "transport c"; cases "released_transport c"; cases "messageGenerator c";
      cases "released_generator c")
     (auto simp: on_transport_def pass_on_def getState_def client_isAlive_def isAlive_def
        the_transport_def the_generator_def put_transport_def put_generator_def
        split: option.splits)

text \<open>
  Claim C1 fails on the sample session: the prompt is written, the subprocess exits and
  its output ends; the state is still \<open>processing\<close>, the client is still alive, no event
  was emitted after the write, and the query still waits.
\<close>

theorem exit_while_pending_counterexample:
  \<open>client_start sample_parse sample_env [] (Suc 0)
      [[Stdout ''{"type":"system","subtype":"init","session_id":"S1"}'']] (new_PersistentClient None)
     = (Inr (), sample_started)
   \<and> query_submit ''ping'' sample_started = Inr sample_querying
   \<and> getState (fold (client_step sample_parse) [GeneratorResumes, SubprocessExits, StdoutEnds] sample_querying)
     = \<lparr>snapshot_sessionId = Some (JStr ''S1''), processState = processing,
        snapshot_isAlive = True, snapshot_messageCount = 1\<rparr>
   \<and> map_option trace (transport
        (fold (client_step sample_parse) [GeneratorResumes, SubprocessExits, StdoutEnds] sample_querying))
     = Some (trace sample_processing)
   \<and> waitingForResult (fold (client_step sample_parse) [GeneratorResumes, SubprocessExits, StdoutEnds] sample_querying) = [0]
   \<and> resolved_waiters (fold (client_step sample_parse) [GeneratorResumes, SubprocessExits, StdoutEnds] sample_querying) = []\<close>
  by (simp add: sample_started_eq sample_querying_eq sample_turn)
     (simp add: sample_querying_def sample_started_def sample_ready_def sample_processing_def client_eval transport_eval)













lemma quiet_gen_call:
  "onError mg = None \<and> (\<forall>r. gen mg \<noteq> AwaitingOnError r) \<and> (\<forall>e. gen mg \<noteq> Threw e) \<Longrightarrow>
   onError (fold generator_call new mg) = None
   \<and> (\<forall>r. gen (fold generator_call new mg) \<noteq> AwaitingOnError r)
   \<and> (\<forall>e. gen (fold generator_call new mg) \<noteq> Threw e)"
proof (induction new arbitrary: mg)
  case Nil
  then show ?case by simp
next
  case (Cons x xs)
  have "onError (generator_call x mg) = None
     \<and> (\<forall>r. gen (generator_call x mg) \<noteq> AwaitingOnError r)
     \<and> (\<forall>e. gen (generator_call x mg) \<noteq> Threw e)"
    using Cons.prems
    by (cases x) (auto simp: gen_next_def gen_return_def new_sendMessagePromise_def split: gen_pc.splits)
  from Cons.IH [OF this] show ?case by simp
qed

lemma quiet_gen_resume:
  "onError mg = None \<and> (\<forall>r. gen mg \<noteq> AwaitingOnError r) \<and> (\<forall>e. gen mg \<noteq> Threw e) \<Longrightarrow>
   onError (gen_resume mg) = None
   \<and> (\<forall>r. gen (gen_resume mg) \<noteq> AwaitingOnError r)
   \<and> (\<forall>e. gen (gen_resume mg) \<noteq> Threw e)"
  by (auto simp: gen_resume_def yield_message_def catch_error_def catch_tail_def new_sendMessagePromise_def
      split: gen_pc.splits Promise.splits option.splits if_splits)

lemma quiet_on_transport:
  assumes "quiet c"
    and "\<And>t. transport c = Some t \<Longrightarrow> sessionId t = None \<Longrightarrow> \<not> aborted t \<Longrightarrow>
            state t = ready \<or> state t = paused \<or> state t = processing \<Longrightarrow>
            sessionId (transport_step parse a t) = None \<and> \<not> aborted (transport_step parse a t)
            \<and> (state (transport_step parse a t) = ready \<or> state (transport_step parse a t) = paused
                \<or> state (transport_step parse a t) = processing)"
  shows "quiet (on_transport parse a c)"
proof -
  from assms(1) obtain t mg where
    c: "transport c = Some t" "messageGenerator c = Some mg"
       "sessionId t = None" "\<not> aborted t"
       "state t = ready \<or> state t = paused \<or> state t = processing"
       "onError mg = None \<and> (\<forall>r. gen mg \<noteq> AwaitingOnError r) \<and> (\<forall>e. gen mg \<noteq> Threw e)"
    by (auto simp: quiet_def split: option.splits)
  from assms(2) [OF c(1,3,4,5)] quiet_gen_call [OF c(6)]
  show ?thesis
    using c(1,2) by (simp add: quiet_def on_transport_def pass_on_def)
qed

lemma quiet_step:
  assumes "quiet c" and "no_init parse a"
  shows "quiet (client_step parse a c)"
proof (cases a)
  case (Stdout line)
  show ?thesis
    unfolding Stdout client_step.simps
  proof (rule quiet_on_transport [OF assms(1)])
    fix t
    assume "transport c = Some t" "sessionId t = None" "\<not> aborted t"
      "state t = ready \<or> state t = paused \<or> state t = processing"
    then show "sessionId (transport_step parse (Line line) t) = None
        \<and> \<not> aborted (transport_step parse (Line line) t)
        \<and> (state (transport_step parse (Line line) t) = ready
            \<or> state (transport_step parse (Line line) t) = paused
            \<or> state (transport_step parse (Line line) t) = processing)"
      using assms(2) Stdout
      by (auto simp: processLine_def handle_parsed_def setState_def emit_def effect_def aborted_def Let_def
          split: option.splits json.splits if_splits)
  qed
next
  case StdoutEnds
  show ?thesis
    unfolding StdoutEnds client_step.simps
    by (rule quiet_on_transport [OF assms(1)]) (auto simp: aborted_def)
next
  case Tick
  show ?thesis
    unfolding Tick client_step.simps
    by (rule quiet_on_transport [OF assms(1)]) (auto simp: aborted_def checkState_def effect_def)
next
  case SubprocessExits
  show ?thesis
    unfolding SubprocessExits client_step.simps
    by (rule quiet_on_transport [OF assms(1)]) (auto simp: aborted_def)
next
  case GeneratorResumes
  from assms(1) obtain t mg where
    c: "transport c = Some t" "messageGenerator c = Some mg"
       "onError mg = None \<and> (\<forall>r. gen mg \<noteq> AwaitingOnError r) \<and> (\<forall>e. gen mg \<noteq> Threw e)"
    by (auto simp: quiet_def split: option.splits)
  let ?c' = "c\<lparr>messageGenerator := Some (gen_resume mg)\<rparr>"
  have q': "quiet ?c'"
    using assms(1) c quiet_gen_resume [OF c(3)] by (simp add: quiet_def)
  have turn: "quiet (on_transport parse (Turn msg) ?c')" for msg
    by (rule quiet_on_transport [OF q'])
       (auto simp: processMessage_def checkState_def setState_def emit_def effect_def aborted_def)
  have gdone: "quiet (on_transport parse GeneratorDone ?c')"
    by (rule quiet_on_transport [OF q']) (auto simp: aborted_def)
  have nothrow: "gen (gen_resume mg) \<noteq> Threw e" for e
    using quiet_gen_resume [OF c(3)] by blast
  show ?thesis
    unfolding GeneratorResumes client_step.simps
    using c(2) q' turn gdone nothrow
    by (simp add: generator_resumes_def Let_def split: gen_pc.splits)
qed (use assms(2) in simp_all)

lemma quiet_run:
  "quiet c \<Longrightarrow> \<forall>a \<in> set acts. no_init parse a \<Longrightarrow> quiet (fold (client_step parse) acts c)"
  by (induction acts arbitrary: c) (simp_all add: quiet_step)

lemma quiet_checkInit: "quiet c \<Longrightarrow> checkInit c = None"
  by (auto simp: quiet_def checkInit_def split: option.splits)

lemma quiet_timeout:
  "quiet c \<Longrightarrow> \<forall>acts \<in> set between. \<forall>a \<in> set acts. no_init parse a \<Longrightarrow>
   fst (waitForSessionInit parse polls between c) = Inl (Error ''Session initialization timeout'')"
proof (induction polls arbitrary: between c)
  case 0
  then show ?case by (simp add: quiet_checkInit)
next
  case (Suc n)
  show ?case
  proof (cases between)
    case Nil
    with Suc show ?thesis by (simp add: quiet_checkInit next_acts_def)
  next
    case (Cons acts rest)
    with Suc.prems have "quiet (fold (client_step parse) acts c)"
      by (intro quiet_run) auto
    from Suc.IH [OF this, of rest] Suc.prems Cons
    show ?thesis by (simp add: quiet_checkInit next_acts_def)
  qed
qed

lemma start_transport_cases:
  assumes "transport c = None"
  shows "(\<exists>e c1. start_transport env prompt c = (Inl e, c1)
            \<and> e \<noteq> Error ''Session initialization timeout'')
         \<or> (\<exists>c1 t1. start_transport env prompt c = (Inr (), c1) \<and> transport c1 = Some t1
              \<and> Emit (StateChange ready) \<in> set (trace t1))"
  using assms
  by (auto simp: start_transport_def start_def start_catch_def Let_def new_PersistentCLITransport_def
      setState_def emit_def effect_def processMessageGenerator_begin_def processOutput_begin_def
      split: option.splits sum.splits)

lemma start_transport_started:
  assumes "transport c \<noteq> None"
  shows "start_transport env prompt c = (Inl (Error ''Client already started''), c)"
  using assms by (simp add: start_transport_def)

lemma start_transport_quiet:
  assumes "transport c = None" and "client_signal c \<noteq> Some True" and "findCLI env \<noteq> None"
    and "has_stdin (execa env)" and "has_stdout (execa env)"
  shows "\<exists>c1. start_transport env prompt c = (Inr (), c1) \<and> quiet c1"
  using assms
  by (auto simp: start_transport_def start_def Let_def new_PersistentCLITransport_def
      setState_def emit_def effect_def processMessageGenerator_begin_def processOutput_begin_def
      pass_on_def quiet_def aborted_def feeder_defs createMessageGenerator_def controllablePromise_def
      split: option.splits)

text \<open>
  Whatever happens around the client, the transport it started stays the same object,
  whether the client still refers to it or not, and its trace only grows.
\<close>

lemma on_transport_grows:
  assumes "the_transport c = Some t"
  shows "\<exists>t' new. the_transport (on_transport parse a c) = Some t' \<and> trace t' = trace t @ new"
  using assms trace_step [of parse a t] by (auto simp: on_transport_def)

lemma client_step_grows:
  assumes "the_transport c = Some t"
  shows "\<exists>t' new. the_transport (client_step parse a c) = Some t' \<and> trace t' = trace t @ new"
proof (cases a)
  case (Hooks h1 h2)
  then show ?thesis using assms by (auto split: option.splits)
next
  case GeneratorResumes
  show ?thesis
  proof (cases "the_generator c")
    case None
    then show ?thesis using GeneratorResumes assms by (simp add: generator_resumes_def)
  next
    case (Some mg)
    let ?c' = "put_generator (gen_resume mg) c"
    have t': "the_transport ?c' = Some t" using assms by simp
    show ?thesis
      using GeneratorResumes Some t' on_transport_grows [OF t', of parse]
      by (simp add: generator_resumes_def Let_def split: gen_pc.splits)
  qed
next
  case (Query prompt)
  have "the_transport c' = the_transport c" if "query_submit prompt c = Inr c'" for c'
    using that by (auto simp: query_submit_def the_transport_def split: option.splits if_splits)
  then show ?thesis using Query assms by (auto split: sum.splits)
next
  case StopCall
  let ?c1 = "case messageGenerator c of None \<Rightarrow> c
             | Some mg \<Rightarrow> c\<lparr>released_generator := Some (terminate_generator mg), messageGenerator := None\<rparr>"
  have t1: "the_transport ?c1 = Some t"
    using assms by (simp add: the_transport_def split: option.splits)
  have "the_transport (c'\<lparr>stop_waiting := n\<rparr>) = the_transport c'"
       "the_transport (c'\<lparr>messageCount := 0, pendingMessages := []\<rparr>) = the_transport c'" for c' n
    by (simp_all add: the_transport_def split: option.splits)
  then show ?thesis
    using StopCall t1 on_transport_grows [OF t1, of "\<lambda>_. None" Terminate]
    by (auto simp: stop_def Let_def split: option.splits)
next
  case StopContinues
  then show ?thesis
    using assms by (simp add: stop_resume_def the_transport_def)
qed (use on_transport_grows [OF assms, of parse] in auto)

lemma run_grows:
  assumes "the_transport c = Some t"
  shows "\<exists>t' new. the_transport (fold (client_step parse) acts c) = Some t' \<and> trace t' = trace t @ new"
proof (induction acts rule: rev_induct)
  case Nil
  show ?case using assms by simp
next
  case (snoc a acts)
  then obtain t' new where
    1: "the_transport (fold (client_step parse) acts c) = Some t'" "trace t' = trace t @ new"
    by blast
  from client_step_grows [OF 1(1), of parse a] obtain t'' new' where
    2: "the_transport (client_step parse a (fold (client_step parse) acts c)) = Some t''"
       "trace t'' = trace t' @ new'"
    by blast
  from 1(2) 2 show ?case by simp
qed

lemma wait_timeout_grows:
  assumes "the_transport c = Some t" and "x \<in> set (trace t)"
    and "waitForSessionInit parse polls between c = (r, c')"
  shows "\<exists>t'. the_transport c' = Some t' \<and> x \<in> set (trace t')"
  using assms
proof (induction polls arbitrary: between c t)
  case 0
  from run_grows [OF 0(1), of parse "next_acts between"] 0(2)
  have "\<exists>t'. the_transport (fold (client_step parse) (next_acts between) c) = Some t' \<and> x \<in> set (trace t')"
    by auto
  with 0 show ?case
    by (auto split: option.splits)
next
  case (Suc n)
  let ?c = "fold (client_step parse) (next_acts between) c"
  from run_grows [OF Suc.prems(1), of parse "next_acts between"] Suc.prems(2)
  obtain t2 where t2: "the_transport ?c = Some t2" "x \<in> set (trace t2)"
    by auto
  show ?case
  proof (cases "checkInit c")
    case None
    with Suc.prems(3) have "waitForSessionInit parse n (tl between) ?c = (r, c')"
      by simp
    from Suc.IH [OF t2 this] show ?thesis .
  next
    case (Some r')
    with Suc.prems show ?thesis by auto
  qed
qed

text \<open>
  Claim C2, as the code has it. Whenever \<^verbatim>\<open>start()\<close> rejects with the timeout error, the
  transport had been started and had announced the state \<open>ready\<close> before the wait began.
  And when the executable is found, the subprocess has its streams, the signal is not
  aborted and nothing but lines without an init record, timer ticks, steps of the
  generator, the end of the output and the exit of the subprocess happens during the
  wait, \<^verbatim>\<open>start()\<close> does reject with the timeout error.
\<close>

theorem init_timeout_after_ready:
  "(client_start parse env prompt polls between c = (Inl (Error ''Session initialization timeout''), c') \<longrightarrow>
      (\<exists>t'. the_transport c' = Some t' \<and> Emit (StateChange ready) \<in> set (trace t')))
   \<and> (transport c = None \<and> client_signal c \<noteq> Some True \<and> findCLI env \<noteq> None
        \<and> has_stdin (execa env) \<and> has_stdout (execa env)
        \<and> (\<forall>acts \<in> set between. \<forall>a \<in> set acts. no_init parse a) \<longrightarrow>
      fst (client_start parse env prompt polls between c) = Inl (Error ''Session initialization timeout''))"
proof (intro conjI impI)
  assume r: "client_start parse env prompt polls between c = (Inl (Error ''Session initialization timeout''), c')"
  show "\<exists>t'. the_transport c' = Some t' \<and> Emit (StateChange ready) \<in> set (trace t')"
  proof (cases "transport c")
    case (Some t)
    then have "start_transport env prompt c = (Inl (Error ''Client already started''), c)"
      by (simp add: start_transport_started)
    with r show ?thesis by (simp add: client_start_def)
  next
    case None
    from start_transport_cases [OF None, of env prompt]
    show ?thesis
    proof (elim disjE exE conjE)
      fix e c1
      assume "start_transport env prompt c = (Inl e, c1)" "e \<noteq> Error ''Session initialization timeout''"
      with r show ?thesis by (simp add: client_start_def)
    next
      fix c1 t1
      assume s: "start_transport env prompt c = (Inr (), c1)" "transport c1 = Some t1"
        "Emit (StateChange ready) \<in> set (trace t1)"
      with r have w: "waitForSessionInit parse polls between c1 = (Inl (Error ''Session initialization timeout''), c')"
        by (simp add: client_start_def)
      from s(2) have "the_transport c1 = Some t1" by simp
      from wait_timeout_grows [OF this s(3) w] show ?thesis .
    qed
  qed
next
  assume h: "transport c = None \<and> client_signal c \<noteq> Some True \<and> findCLI env \<noteq> None
        \<and> has_stdin (execa env) \<and> has_stdout (execa env)
        \<and> (\<forall>acts \<in> set between. \<forall>a \<in> set acts. no_init parse a)"
  then obtain c1 where c1: "start_transport env prompt c = (Inr (), c1)" "quiet c1"
    using start_transport_quiet [of c env prompt] by blast
  from quiet_timeout [OF c1(2), of between parse polls] h c1(1)
  show "fst (client_start parse env prompt polls between c) = Inl (Error ''Session initialization timeout'')"
    by (simp add: client_start_def)
qed

lemma wait_timeout_nil:
  "checkInit c = None \<Longrightarrow>
   waitForSessionInit parse polls [] c = (Inl (Error ''Session initialization timeout''), c)"
  by (induction polls) (simp_all add: next_acts_def)

text \<open>
  Claim C2 fails where the subprocess stays silent: \<^verbatim>\<open>start()\<close> rejects with the
  timeout error after 300 polls, the state is \<open>ready\<close>, and the change to \<open>ready\<close> was
  announced to the subscribers.
\<close>

theorem init_timeout_state_is_ready_counterexample:
  "fst (client_start sample_parse sample_env [] 300 [] (new_PersistentClient None))
     = Inl (Error ''Session initialization timeout'')
   \<and> map_option state (transport (snd (client_start sample_parse sample_env [] 300 [] (new_PersistentClient None))))
     = Some ready
   \<and> map_option trace (transport (snd (client_start sample_parse sample_env [] 300 [] (new_PersistentClient None))))
     = Some [Emit (StateChange initializing), NextTurn, Emit (StateChange ready)]"
proof -
  let ?c1 = "\<lparr>client_signal = None,
       transport = Some (run_transport sample_parse None [Start sample_env]),
       messageGenerator = Some (gen_next createMessageGenerator),
       messageCount = 0, pendingMessages = [], waitingForResult = [], resolved_waiters = [],
       released_transport = None, released_generator = None, stop_waiting = 0\<rparr>"
  have ci: "checkInit ?c1 = None"
    by (simp add: checkInit_def run1)
  have "client_start sample_parse sample_env [] 300 [] (new_PersistentClient None)
      = (Inl (Error ''Session initialization timeout''), ?c1)"
    by (simp add: client_start_def cstart1 wait_timeout_nil [OF ci])
  then show ?thesis by (simp add: run1)
qed

theorem init_timeout_after_ready_witness:
  \<open>fst (client_start sample_parse sample_env ''hello'' 2
          [[GeneratorResumes], [Stdout '' {"type":"assistant"}'']] (new_PersistentClient None))
     = Inl (Error ''Session initialization timeout'')
   \<and> (\<exists>t'. the_transport (snd (client_start sample_parse sample_env ''hello'' 2
          [[GeneratorResumes], [Stdout '' {"type":"assistant"}'']] (new_PersistentClient None))) = Some t'
         \<and> Emit (StateChange ready) \<in> set (trace t'))\<close>
proof -
  let ?r = \<open>client_start sample_parse sample_env ''hello'' 2
          [[GeneratorResumes], [Stdout '' {"type":"assistant"}'']] (new_PersistentClient None)\<close>
  have tl: \<open>trim '' {"type":"assistant"}'' = ''{"type":"assistant"}''\<close>
    by (simp add: trim_def is_space_def)
  have ni: \<open>\<forall>acts \<in> set [[GeneratorResumes], [Stdout '' {"type":"assistant"}'']].
            \<forall>a \<in> set acts. no_init sample_parse a\<close>
    by (simp add: tl) (simp add: sample_parse_def is_init_def property_def)
  have h: \<open>transport (new_PersistentClient None) = None
        \<and> client_signal (new_PersistentClient None) \<noteq> Some True \<and> findCLI sample_env \<noteq> None
        \<and> has_stdin (execa sample_env) \<and> has_stdout (execa sample_env)
        \<and> (\<forall>acts \<in> set [[GeneratorResumes], [Stdout '' {"type":"assistant"}'']].
              \<forall>a \<in> set acts. no_init sample_parse a)\<close>
    using ni by (simp add: new_PersistentClient_def sample_env_def)
  note T = init_timeout_after_ready
    [where parse = sample_parse and env = sample_env and prompt = "''hello''" and polls = 2
       and between = \<open>[[GeneratorResumes], [Stdout '' {"type":"assistant"}'']]\<close>
       and c = "new_PersistentClient None" and c' = "snd ?r"]
  from T h have f: "fst ?r = Inl (Error ''Session initialization timeout'')"
    by blast
  then have "?r = (Inl (Error ''Session initialization timeout''), snd ?r)"
    by (metis prod.collapse)
  with T have "\<exists>t'. the_transport (snd ?r) = Some t' \<and> Emit (StateChange ready) \<in> set (trace t')"
    by blast
  with f show ?thesis by blast
qed

text \<open>
  The timer of \<^verbatim>\<open>waitForSessionInit\<close> rejects whatever has happened since the last poll.
  On the sample session \<^verbatim>\<open>start()\<close> rejects with the timeout error although the init
  record has arrived after the last poll and the session id is set; and it rejects with
  the timeout error after a call of \<^verbatim>\<open>stop\<close> during the wait, with the transport
  terminated and dropped.
\<close>

lemma timeout_is_unconditional:
  \<open>client_start sample_parse sample_env [] 0
      [[Stdout ''{"type":"system","subtype":"init","session_id":"S1"}'']] (new_PersistentClient None)
     = (Inl (Error ''Session initialization timeout''), sample_started)
   \<and> snapshot_sessionId (getState sample_started) = Some (JStr ''S1'')
   \<and> fst (client_start sample_parse sample_env [] (Suc 0)
        [[StopCall, SubprocessExits, TerminateContinues, StopContinues]] (new_PersistentClient None))
     = Inl (Error ''Session initialization timeout'')
   \<and> transport (snd (client_start sample_parse sample_env [] (Suc 0)
        [[StopCall, SubprocessExits, TerminateContinues, StopContinues]] (new_PersistentClient None))) = None
   \<and> map_option state (released_transport (snd (client_start sample_parse sample_env [] (Suc 0)
        [[StopCall, SubprocessExits, TerminateContinues, StopContinues]] (new_PersistentClient None))))
     = Some terminated\<close>
  by (simp add: client_start_def cstart1 run1 checkInit_def next_acts_def)
     (simp add: client_eval transport_eval sample_started_def sample_ready_def feeder_eval)

end
